theory Spec2Isabelle
  imports Main
begin

section \<open>Values and external collaborators\<close>

text \<open>
  The values that flow through \<^verbatim>\<open>src/App.tsx\<close>: the results of the awaited calls and
  the \<^verbatim>\<open>vault\<close> field of the global state. \<^verbatim>\<open>Boolean(x)\<close> and the condition of
  \<^verbatim>\<open>c ? a : b\<close> are JavaScript's ToBoolean.
\<close>

datatype jsval = JUndefined | JNull | JBool bool | JStr string | JObject

fun Boolean :: "jsval \<Rightarrow> bool" where
  "Boolean JUndefined = False"
| "Boolean JNull = False"
| "Boolean (JBool b) = b"
| "Boolean (JStr s) = (s \<noteq> [])"
| "Boolean JObject = True"

datatype splash = AutoHide | Prevented | Hidden

text \<open>
  The device: the vault file, the secure store's password, the key-value store, the
  biometric enrolment and the splash screen.
\<close>

record world =
  vault_exists :: bool
  password :: "string option"
  storage :: "string \<rightharpoonup> string"
  enrolled :: bool
  splash :: splash

text \<open>The asynchronous calls that \<^verbatim>\<open>App.tsx\<close> awaits.\<close>

datatype op =
    PreventAutoHideAsync
  | HideAsync
  | DeleteVault
  | RemovePassword
  | Clear
  | DoesVaultExist
  | IsEnrolledAsync
  | GetPassword
  | GetConcealTokens
  | Asset_loadAsync
  | Font_loadAsync

text \<open>
  Modelled from the spec: the modules \<^verbatim>\<open>./vault\<close>, \<^verbatim>\<open>./secure-storage\<close> and
  \<^verbatim>\<open>./async-storage\<close> and the expo libraries are not part of the sources. Section 6 of
  the specification gives their contracts: a check returns a bool, a get returns an
  optional value (\<^verbatim>\<open>null\<close> when absent), a delete, remove or clear empties its store and
  is idempotent, the loaders only pass or fail. The two stores hold strings. \<open>perform\<close>
  is the effect and the value of a call that resolves; a call that rejects leaves the
  device as it is.
\<close>

fun perform :: "op \<Rightarrow> world \<Rightarrow> jsval \<times> world" where
  "perform PreventAutoHideAsync w = (JUndefined, w\<lparr>splash := Prevented\<rparr>)"
| "perform HideAsync w = (JUndefined, w\<lparr>splash := Hidden\<rparr>)"
| "perform DeleteVault w = (JUndefined, w\<lparr>vault_exists := False\<rparr>)"
| "perform RemovePassword w = (JUndefined, w\<lparr>password := None\<rparr>)"
| "perform Clear w = (JUndefined, w\<lparr>storage := Map.empty\<rparr>)"
| "perform DoesVaultExist w = (JBool (vault_exists w), w)"
| "perform IsEnrolledAsync w = (JBool (enrolled w), w)"
| "perform GetPassword w = ((case password w of None \<Rightarrow> JNull | Some p \<Rightarrow> JStr p), w)"
| "perform GetConcealTokens w =
     ((case storage w ''concealTokens'' of None \<Rightarrow> JNull | Some v \<Rightarrow> JStr v), w)"
| "perform Asset_loadAsync w = (JUndefined, w)"
| "perform Font_loadAsync w = (JUndefined, w)"

section \<open>The component's state\<close>

record settings =
  biometricUnlock :: bool
  concealTokens :: bool

text \<open>The three \<^verbatim>\<open>useState\<close> cells of \<^verbatim>\<open>App\<close>, with their initial values.\<close>

record app =
  vaultExists :: jsval
  initialSettings :: "settings option"
  isReady :: bool

definition app0 :: app where
  "app0 = \<lparr>vaultExists = JBool False, initialSettings = None, isReady = False\<rparr>"

datatype action =
    SetVaultExists jsval
  | SetInitialSettings settings
  | SetReady bool

fun act :: "action \<Rightarrow> app \<Rightarrow> app" where
  "act (SetVaultExists v) a = a\<lparr>vaultExists := v\<rparr>"
| "act (SetInitialSettings s) a = a\<lparr>initialSettings := Some s\<rparr>"
| "act (SetReady b) a = a\<lparr>isReady := b\<rparr>"

section \<open>Asynchronous functions\<close>

text \<open>
  An async function without \<^verbatim>\<open>Promise.all\<close> is a resumption: it has returned, it has
  thrown (an awaited call rejected: no function of \<^verbatim>\<open>App.tsx\<close> has a try/catch), it
  awaits a call and continues with its value, or it sets a state cell and goes on.
\<close>

datatype task =
    Return
  | Throw
  | Await op "jsval \<Rightarrow> task"
  | Do action task

text \<open>Who runs: the functions of \<^verbatim>\<open>App.tsx\<close> and the three calls of the reset.\<close>

datatype fn =
    Initialize
  | Reset_deleteVault
  | Reset_removePassword
  | Reset_clear
  | CheckVault
  | LoadSettings
  | LoadImages
  | LoadFonts

text \<open>
  \<open>initialize\<close> and \<open>loadAssets\<close> also await \<^verbatim>\<open>Promise.all\<close> of a list of started
  functions.
\<close>

datatype main =
    MReturn
  | MAwait op "jsval \<Rightarrow> main"
  | MDo action main
  | MAwaitAll "(fn \<times> task) list" main

text \<open>A bare call of an external async function: a promise of its result.\<close>

definition call :: "op \<Rightarrow> task" where
  "call opn = Await opn (\<lambda>_. Return)"

text \<open>
  \<^verbatim>\<open>const vaultExists = await doesVaultExist(); setVaultExists(vaultExists);\<close>
\<close>

definition checkVault :: task where
  "checkVault = Await DoesVaultExist (\<lambda>vaultExists. Do (SetVaultExists vaultExists) Return)"

text \<open>
  \<open>loadSettings\<close> (lines 100 to 121): the enrolment query; if it is falsy, the removal
  of the password; then \<open>readSettings\<close>, the two reads, each under \<^verbatim>\<open>Boolean\<close>; then
  \<open>emitSettings\<close>, the one call of \<^verbatim>\<open>setInitialSettings\<close>.
\<close>

definition emitSettings :: "bool \<Rightarrow> jsval \<Rightarrow> task" where
  "emitSettings b c =
     Do (SetInitialSettings \<lparr>biometricUnlock = b, concealTokens = Boolean c\<rparr>) Return"

definition readSettings :: task where
  "readSettings =
     Await GetPassword (\<lambda>p. Await GetConcealTokens (emitSettings (Boolean p)))"

definition loadSettings :: task where
  "loadSettings =
     Await IsEnrolledAsync (\<lambda>areBiometricsEnrolled.
       if \<not> Boolean areBiometricsEnrolled
       then Await RemovePassword (\<lambda>_. readSettings)
       else readSettings)"

text \<open>The two preloads: \<^verbatim>\<open>Asset.loadAsync\<close> of the logo, \<^verbatim>\<open>Font.loadAsync\<close> of the fonts.\<close>

definition loadImages :: task where
  "loadImages = Await Asset_loadAsync (\<lambda>_. Return)"

definition loadFonts :: task where
  "loadFonts = Await Font_loadAsync (\<lambda>_. Return)"

text \<open>The arrays of the two \<^verbatim>\<open>Promise.all\<close> of \<open>loadAssets\<close>.\<close>

definition resets :: "(fn \<times> task) list" where
  "resets =
     [(Reset_deleteVault, call DeleteVault),
      (Reset_removePassword, call RemovePassword),
      (Reset_clear, call Clear)]"

definition loads :: "(fn \<times> task) list" where
  "loads =
     [(CheckVault, checkVault),
      (LoadSettings, loadSettings),
      (LoadImages, loadImages),
      (LoadFonts, loadFonts)]"

text \<open>
  \<open>loadAssets shouldReset rest\<close>: the body of \<^verbatim>\<open>loadAssets\<close>, followed by what
  \<^verbatim>\<open>initialize\<close> does after \<^verbatim>\<open>await loadAssets()\<close>. \<^verbatim>\<open>configuration.shouldReset\<close> is a
  constant of \<^verbatim>\<open>./constants\<close>, a parameter here.
\<close>

definition loadAssets :: "bool \<Rightarrow> main \<Rightarrow> main" where
  "loadAssets shouldReset rest =
     (if shouldReset then MAwaitAll resets (MAwaitAll loads rest)
      else MAwaitAll loads rest)"

text \<open>
  \<open>initialize\<close> (lines 70 to 76); \<open>finish\<close> is what follows \<^verbatim>\<open>await loadAssets()\<close>:
  \<^verbatim>\<open>setReady(true); await SplashScreen.hideAsync();\<close>
\<close>

definition finish :: main where
  "finish = MDo (SetReady True) (MAwait HideAsync (\<lambda>_. MReturn))"

definition initialize :: "bool \<Rightarrow> main" where
  "initialize shouldReset =
     MAwait PreventAutoHideAsync (\<lambda>_. loadAssets shouldReset finish)"

section \<open>The event loop\<close>

text \<open>
  What has happened, the most recent event first: a call was made, a call resolved with
  a value, a call rejected, a state cell was set, a function returned.
\<close>

datatype event =
    Called fn op
  | Resolved fn op jsval
  | Rejected fn op
  | Acted fn action
  | Returned fn

datatype mstate =
    Pending op "jsval \<Rightarrow> main"
  | Joining main
  | Finished
  | Aborted

record config =
  world :: world
  app :: app
  main :: mstate
  pool :: "(fn \<times> task) list"
  trace :: "event list"

text \<open>
  JavaScript runs a function without interruption up to its next \<^verbatim>\<open>await\<close>: \<open>sync\<close>
  runs a task to the call it awaits next, or to its end.
\<close>

fun sync :: "fn \<Rightarrow> task \<Rightarrow> app \<Rightarrow> event list \<Rightarrow> task \<times> app \<times> event list" where
  "sync f Return a tr = (Return, a, Returned f # tr)"
| "sync f Throw a tr = (Throw, a, tr)"
| "sync f (Await opn k) a tr = (Await opn k, a, Called f opn # tr)"
| "sync f (Do x t) a tr = sync f t (act x a) (Acted f x # tr)"

text \<open>The elements of the array given to \<^verbatim>\<open>Promise.all\<close> are started from left to right.\<close>

fun start_all ::
  "(fn \<times> task) list \<Rightarrow> app \<Rightarrow> event list \<Rightarrow> (fn \<times> task) list \<times> app \<times> event list" where
  "start_all [] a tr = ([], a, tr)"
| "start_all ((f, t) # ts) a tr =
     (case sync f t a tr of (t', a', tr') \<Rightarrow>
        (case start_all ts a' tr' of (ts', a'', tr'') \<Rightarrow> ((f, t') # ts', a'', tr'')))"

fun returned :: "fn \<times> task \<Rightarrow> bool" where
  "returned (f, Return) = True"
| "returned (f, t) = False"

fun thrown :: "fn \<times> task \<Rightarrow> bool" where
  "thrown (f, Throw) = True"
| "thrown (f, t) = False"

text \<open>
  \<open>advance m c\<close> runs \<open>initialize\<close> from \<open>m\<close> to its next suspension. \<^verbatim>\<open>Promise.all\<close>
  starts its elements and is awaited; it resolves once every element has returned.
\<close>

fun advance :: "main \<Rightarrow> config \<Rightarrow> config" where
  "advance MReturn c = c\<lparr>main := Finished, trace := Returned Initialize # trace c\<rparr>"
| "advance (MAwait opn k) c =
     c\<lparr>main := Pending opn k, trace := Called Initialize opn # trace c\<rparr>"
| "advance (MDo x m) c =
     advance m (c\<lparr>app := act x (app c), trace := Acted Initialize x # trace c\<rparr>)"
| "advance (MAwaitAll ts m) c =
     (case start_all ts (app c) (trace c) of (ts', a', tr') \<Rightarrow>
        (let c' = c\<lparr>app := a', pool := ts', trace := tr'\<rparr> in
         if list_ex thrown ts' then c'\<lparr>main := Aborted\<rparr>
         else if list_all returned ts' then advance m c'
         else c'\<lparr>main := Joining m\<rparr>))"

text \<open>
  The awaited \<^verbatim>\<open>Promise.all\<close> resolves when its last element returns, and
  \<open>initialize\<close> goes on.
\<close>

definition join :: "config \<Rightarrow> config" where
  "join c =
     (case main c of
        Joining m \<Rightarrow> if list_all returned (pool c) then advance m c else c
      | _ \<Rightarrow> c)"

text \<open>
  A rejected element rejects the awaited \<^verbatim>\<open>Promise.all\<close>, which throws in
  \<open>initialize\<close>; the other elements are not cancelled.
\<close>

definition abort :: "config \<Rightarrow> config" where
  "abort c = (case main c of Joining m \<Rightarrow> c\<lparr>main := Aborted\<rparr> | _ \<Rightarrow> c)"

text \<open>
  One turn of the event loop: a pending call settles, of \<open>initialize\<close> itself or of
  element \<open>i\<close> of the pool; it resolves (\<open>True\<close>) or rejects (\<open>False\<close>). A choice that
  names no pending call changes nothing. A run is a list of choices: the calls settle in any
  order, any of them may reject, and a call that is never chosen never settles. During a
  launch nothing but these calls changes the device.
\<close>

datatype choice = Settle_main bool | Settle_child nat bool

fun step :: "choice \<Rightarrow> config \<Rightarrow> config" where
  "step (Settle_main ok) c =
     (case main c of
        Pending opn k \<Rightarrow>
          if ok then
            (case perform opn (world c) of (v, w') \<Rightarrow>
               advance (k v)
                 (c\<lparr>world := w', trace := Resolved Initialize opn v # trace c\<rparr>))
          else c\<lparr>main := Aborted, trace := Rejected Initialize opn # trace c\<rparr>
      | _ \<Rightarrow> c)"
| "step (Settle_child i ok) c =
     (if i < length (pool c) then
        (case pool c ! i of
           (f, Await opn k) \<Rightarrow>
             if ok then
               (case perform opn (world c) of (v, w') \<Rightarrow>
                  (case sync f (k v) (app c) (Resolved f opn v # trace c) of
                     (t', a', tr') \<Rightarrow>
                       join (c\<lparr>world := w', app := a', trace := tr',
                                pool := (pool c)[i := (f, t')]\<rparr>)))
             else
               abort (c\<lparr>trace := Rejected f opn # trace c,
                         pool := (pool c)[i := (f, Throw)]\<rparr>)
         | _ \<Rightarrow> c)
      else c)"

fun run :: "choice list \<Rightarrow> config \<Rightarrow> config" where
  "run [] c = c"
| "run (x # xs) c = run xs (step x c)"

text \<open>
  The launch: the first render happens with the initial state, then the effect calls
  \<^verbatim>\<open>initialize()\<close>, once.
\<close>

definition boot :: "bool \<Rightarrow> world \<Rightarrow> config" where
  "boot shouldReset w =
     advance (initialize shouldReset)
       \<lparr>world = w, app = app0, main = Finished, pool = [], trace = []\<rparr>"

section \<open>Rendering\<close>

datatype screen =
    Welcome
  | AuthenticationSetup
  | Authentication
  | Home
  | Sorting
  | BarcodeScanner
  | Settings

text \<open>
  Modelled from the spec: the global state comes from \<^verbatim>\<open>./hooks\<close>, which is not part of
  the sources. Section 4.4 of the specification: its \<open>vault\<close> is the flag that is set once
  the vault is unlocked; the navigator tests it for truth.
\<close>

record globalState =
  vault :: jsval

record navigator =
  initialRouteName :: screen
  screens :: "screen list"

text \<open>
  The navigator (lines 151 to 198): its initial route, and the screens of the one fragment
  that the \<open>vault\<close> of the global state selects.
\<close>

definition Stack_Navigator :: "app \<Rightarrow> globalState \<Rightarrow> navigator" where
  "Stack_Navigator a globalState =
     \<lparr>initialRouteName = (if Boolean (vaultExists a) then Authentication else Welcome),
      screens =
        (if Boolean (vault globalState)
         then [Home, Sorting, BarcodeScanner, Settings]
         else [Welcome, AuthenticationSetup, Authentication])\<rparr>"

text \<open>
  What \<^verbatim>\<open>App\<close> returns: \<^verbatim>\<open>null\<close>, or the provider of the global state, given the loaded
  settings, around the navigator.
\<close>

record rendered =
  provided :: "settings option"
  navigation :: "globalState \<Rightarrow> navigator"

definition App :: "app \<Rightarrow> rendered option" where
  "App a =
     (if isReady a
      then Some \<lparr>provided = initialSettings a, navigation = Stack_Navigator a\<rparr>
      else None)"

text \<open>The screens of the navigator that \<^verbatim>\<open>App\<close> returns: none when it returns \<^verbatim>\<open>null\<close>.\<close>

definition mounted :: "app \<Rightarrow> globalState \<Rightarrow> screen list" where
  "mounted a globalState =
     (case App a of None \<Rightarrow> [] | Some view \<Rightarrow> screens (navigation view globalState))"

section \<open>Observations on a run\<close>

text \<open>Whose event it is, and the kinds of events that the properties speak about.\<close>

fun who :: "event \<Rightarrow> fn" where
  "who (Called f opn) = f"
| "who (Resolved f opn v) = f"
| "who (Rejected f opn) = f"
| "who (Acted f x) = f"
| "who (Returned f) = f"

fun is_load :: "fn \<Rightarrow> bool" where
  "is_load CheckVault = True"
| "is_load LoadSettings = True"
| "is_load LoadImages = True"
| "is_load LoadFonts = True"
| "is_load f = False"

fun is_reset :: "fn \<Rightarrow> bool" where
  "is_reset Reset_deleteVault = True"
| "is_reset Reset_removePassword = True"
| "is_reset Reset_clear = True"
| "is_reset f = False"

fun is_call :: "event \<Rightarrow> bool" where
  "is_call (Called f opn) = True"
| "is_call e = False"

fun sets_ready :: "event \<Rightarrow> bool" where
  "sets_ready (Acted f (SetReady b)) = True"
| "sets_ready e = False"

text \<open>
  \<open>guarded P req tr\<close>: in the trace \<open>tr\<close> (most recent event first), every event that
  satisfies \<open>P\<close> happened after all the events of \<open>req\<close> had happened.
\<close>

primrec guarded :: "('a \<Rightarrow> bool) \<Rightarrow> 'a list \<Rightarrow> 'a list \<Rightarrow> bool" where
  "guarded P req [] = True"
| "guarded P req (e # tr) = ((P e \<longrightarrow> set req \<subseteq> set tr) \<and> guarded P req tr)"

text \<open>The three deletions of the reset have resolved; the four loads have returned.\<close>

definition reset_done :: "event list" where
  "reset_done =
     [Resolved Reset_deleteVault DeleteVault JUndefined,
      Resolved Reset_removePassword RemovePassword JUndefined,
      Resolved Reset_clear Clear JUndefined]"

definition loads_done :: "event list" where
  "loads_done =
     [Returned CheckVault, Returned LoadSettings, Returned LoadImages, Returned LoadFonts]"

text \<open>The calls made by the reset, in the order in which they were made.\<close>

definition reset_calls :: "event list \<Rightarrow> event list" where
  "reset_calls tr = filter (\<lambda>e. is_call e \<and> is_reset (who e)) (rev tr)"

section \<open>The reachable configurations\<close>

text \<open>The device when the four loads start: after the reset, if there is one.\<close>

definition after_reset :: "bool \<Rightarrow> world \<Rightarrow> world" where
  "after_reset r w =
     (if r then w\<lparr>vault_exists := False, password := None, storage := Map.empty,
                  splash := Prevented\<rparr>
      else w\<lparr>splash := Prevented\<rparr>)"

text \<open>The password that \<open>loadSettings\<close> leaves in the secure store, and what it emits.\<close>

definition kept :: "bool \<Rightarrow> world \<Rightarrow> string option" where
  "kept r w0 = (if enrolled w0 then password (after_reset r w0) else None)"

definition unlocks :: "bool \<Rightarrow> world \<Rightarrow> bool" where
  "unlocks r w0 = Boolean (case kept r w0 of None \<Rightarrow> JNull | Some p \<Rightarrow> JStr p)"

definition conceals :: "bool \<Rightarrow> world \<Rightarrow> bool" where
  "conceals r w0 =
     Boolean (case storage (after_reset r w0) ''concealTokens'' of
                None \<Rightarrow> JNull | Some v \<Rightarrow> JStr v)"

definition snapshot :: "bool \<Rightarrow> world \<Rightarrow> settings" where
  "snapshot r w0 = \<lparr>biometricUnlock = unlocks r w0, concealTokens = conceals r w0\<rparr>"

text \<open>
  From the start of the loads on: the vault, the key-value store and the enrolment are as
  they were when the loads started, and the events of the reset are all in the past.
\<close>

definition stores :: "bool \<Rightarrow> world \<Rightarrow> config \<Rightarrow> bool" where
  "stores r w0 c \<longleftrightarrow>
     vault_exists (world c) = vault_exists (after_reset r w0) \<and>
     storage (world c) = storage (after_reset r w0) \<and>
     enrolled (world c) = enrolled w0 \<and>
     Resolved Initialize PreventAutoHideAsync JUndefined \<in> set (trace c) \<and>
     (r \<longrightarrow> set reset_done \<subseteq> set (trace c) \<and>
            guarded (\<lambda>e. is_load (who e)) reset_done (trace c) \<and>
            reset_calls (trace c) =
              [Called Reset_deleteVault DeleteVault,
               Called Reset_removePassword RemovePassword,
               Called Reset_clear Clear]) \<and>
     (\<not> r \<longrightarrow> (\<forall>e\<in>set (trace c). \<not> is_reset (who e)))"

text \<open>
  What the calls of the loads resolved with, and the order of the calls of
  \<open>loadSettings\<close> on the secure store.
\<close>

definition observed :: "bool \<Rightarrow> world \<Rightarrow> event list \<Rightarrow> bool" where
  "observed r w0 tr \<longleftrightarrow>
     (\<forall>v. Resolved LoadSettings IsEnrolledAsync v \<in> set tr \<longrightarrow> v = JBool (enrolled w0)) \<and>
     (\<forall>v. Resolved CheckVault DoesVaultExist v \<in> set tr \<longrightarrow>
        v = JBool (vault_exists (after_reset r w0))) \<and>
     (\<forall>v. Resolved LoadSettings GetPassword v \<in> set tr \<longrightarrow>
        v = (case kept r w0 of None \<Rightarrow> JNull | Some p \<Rightarrow> JStr p)) \<and>
     (\<forall>v. Resolved LoadSettings GetConcealTokens v \<in> set tr \<longrightarrow>
        v = (case storage (after_reset r w0) ''concealTokens'' of
               None \<Rightarrow> JNull | Some x \<Rightarrow> JStr x)) \<and>
     (enrolled w0 \<longrightarrow> Called LoadSettings RemovePassword \<notin> set tr) \<and>
     (\<not> enrolled w0 \<longrightarrow>
        guarded (\<lambda>e. e = Called LoadSettings GetPassword)
          [Resolved LoadSettings RemovePassword JUndefined] tr)"

definition settled_or :: "task \<Rightarrow> task \<Rightarrow> bool" where
  "settled_or t0 t \<longleftrightarrow> t = t0 \<or> t = Return \<or> t = Throw"

text \<open>
  The states of \<open>checkVault\<close>, with the cell \<open>vaultExists\<close> and the events so far.
\<close>

definition cv_ok :: "bool \<Rightarrow> world \<Rightarrow> jsval \<Rightarrow> event set \<Rightarrow> task \<Rightarrow> bool" where
  "cv_ok r w0 v T t \<longleftrightarrow>
     t = checkVault \<and> v = JBool False \<or>
     t = Throw \<and> v = JBool False \<or>
     t = Return \<and> v = JBool (vault_exists (after_reset r w0)) \<and>
       Resolved CheckVault DoesVaultExist (JBool (vault_exists (after_reset r w0))) \<in> T \<and>
       Returned CheckVault \<in> T"

text \<open>
  The states of \<open>loadSettings\<close>, with the cell \<open>initialSettings\<close>, the stored password
  and the events so far.
\<close>

definition removing :: task where
  "removing = Await RemovePassword (\<lambda>_. readSettings)"

definition has_read :: "bool \<Rightarrow> world \<Rightarrow> string option \<Rightarrow> event set \<Rightarrow> bool" where
  "has_read r w0 pw T \<longleftrightarrow>
     pw = kept r w0 \<and>
     Resolved LoadSettings IsEnrolledAsync (JBool (enrolled w0)) \<in> T \<and>
     (\<not> enrolled w0 \<longrightarrow> Resolved LoadSettings RemovePassword JUndefined \<in> T)"

definition ls_ok ::
  "bool \<Rightarrow> world \<Rightarrow> settings option \<Rightarrow> string option \<Rightarrow> event set \<Rightarrow> task \<Rightarrow> bool" where
  "ls_ok r w0 s pw T t \<longleftrightarrow>
     t = loadSettings \<and> s = None \<and> pw = password (after_reset r w0) \<or>
     t = removing \<and> s = None \<and> pw = password (after_reset r w0) \<and> \<not> enrolled w0 \<and>
       Resolved LoadSettings IsEnrolledAsync (JBool False) \<in> T \<or>
     t = readSettings \<and> s = None \<and> has_read r w0 pw T \<or>
     t = Await GetConcealTokens (emitSettings (unlocks r w0)) \<and> s = None \<and>
       has_read r w0 pw T \<or>
     t = Return \<and> s = Some (snapshot r w0) \<and> Returned LoadSettings \<in> T \<and>
       has_read r w0 pw T \<or>
     t = Throw \<and> s = None \<and>
       (pw = password (after_reset r w0) \<or> \<not> enrolled w0 \<and> pw = None)"

text \<open>The states of the two preloads.\<close>

definition li_ok :: "event set \<Rightarrow> task \<Rightarrow> bool" where
  "li_ok T t \<longleftrightarrow> t = loadImages \<or> t = Throw \<or> t = Return \<and> Returned LoadImages \<in> T"

definition lf_ok :: "event set \<Rightarrow> task \<Rightarrow> bool" where
  "lf_ok T t \<longleftrightarrow> t = loadFonts \<or> t = Throw \<or> t = Return \<and> Returned LoadFonts \<in> T"

text \<open>Before the readiness is set; while \<open>initialize\<close> awaits a \<^verbatim>\<open>Promise.all\<close>.\<close>

definition unready :: "config \<Rightarrow> bool" where
  "unready c \<longleftrightarrow>
     \<not> isReady (app c) \<and>
     (\<forall>e\<in>set (trace c). \<not> sets_ready e) \<and>
     Called Initialize HideAsync \<notin> set (trace c)"

definition joining :: "main \<Rightarrow> config \<Rightarrow> bool" where
  "joining m c \<longleftrightarrow>
     (main c = Aborted \<or> main c = Joining m) \<and>
     (main c \<noteq> Aborted \<longrightarrow>
        \<not> list_ex thrown (pool c) \<and> \<not> list_all returned (pool c) \<and>
        (\<forall>f opn. Rejected f opn \<notin> set (trace c)))"

text \<open>
  The four phases of a launch: \<^verbatim>\<open>preventAutoHideAsync\<close> is pending or has rejected; the
  reset is running; the four loads are running; the component is ready.
\<close>

definition phase0 :: "bool \<Rightarrow> world \<Rightarrow> config \<Rightarrow> bool" where
  "phase0 r w0 c \<longleftrightarrow>
     world c = w0 \<and> app c = app0 \<and> pool c = [] \<and>
     (main c = Pending PreventAutoHideAsync (\<lambda>_. loadAssets r finish) \<and>
        trace c = [Called Initialize PreventAutoHideAsync] \<or>
      main c = Aborted \<and>
        trace c =
          [Rejected Initialize PreventAutoHideAsync, Called Initialize PreventAutoHideAsync])"

definition phase1 :: "world \<Rightarrow> config \<Rightarrow> bool" where
  "phase1 w0 c \<longleftrightarrow>
     (\<exists>d1 d2 d3.
        pool c =
          [(Reset_deleteVault, d1), (Reset_removePassword, d2), (Reset_clear, d3)] \<and>
        settled_or (call DeleteVault) d1 \<and>
        settled_or (call RemovePassword) d2 \<and>
        settled_or (call Clear) d3 \<and>
        (d1 = Return \<longrightarrow>
           \<not> vault_exists (world c) \<and>
           Resolved Reset_deleteVault DeleteVault JUndefined \<in> set (trace c)) \<and>
        (d2 = Return \<longrightarrow>
           password (world c) = None \<and>
           Resolved Reset_removePassword RemovePassword JUndefined \<in> set (trace c)) \<and>
        (d3 = Return \<longrightarrow>
           storage (world c) = Map.empty \<and>
           Resolved Reset_clear Clear JUndefined \<in> set (trace c))) \<and>
     enrolled (world c) = enrolled w0 \<and>
     splash (world c) = Prevented \<and>
     app c = app0 \<and>
     unready c \<and>
     Resolved Initialize PreventAutoHideAsync JUndefined \<in> set (trace c) \<and>
     (\<forall>e\<in>set (trace c). \<not> is_load (who e)) \<and>
     reset_calls (trace c) =
       [Called Reset_deleteVault DeleteVault,
        Called Reset_removePassword RemovePassword,
        Called Reset_clear Clear] \<and>
     joining (MAwaitAll loads finish) c"

definition phase2 :: "bool \<Rightarrow> world \<Rightarrow> config \<Rightarrow> bool" where
  "phase2 r w0 c \<longleftrightarrow>
     (\<exists>cv ls li lf.
        pool c =
          [(CheckVault, cv), (LoadSettings, ls), (LoadImages, li), (LoadFonts, lf)] \<and>
        cv_ok r w0 (vaultExists (app c)) (set (trace c)) cv \<and>
        ls_ok r w0 (initialSettings (app c)) (password (world c)) (set (trace c)) ls \<and>
        li_ok (set (trace c)) li \<and>
        lf_ok (set (trace c)) lf) \<and>
     stores r w0 c \<and>
     observed r w0 (trace c) \<and>
     splash (world c) = Prevented \<and>
     unready c \<and>
     joining finish c"

definition phase3 :: "bool \<Rightarrow> world \<Rightarrow> config \<Rightarrow> bool" where
  "phase3 r w0 c \<longleftrightarrow>
     pool c =
       [(CheckVault, Return), (LoadSettings, Return), (LoadImages, Return),
        (LoadFonts, Return)] \<and>
     cv_ok r w0 (vaultExists (app c)) (set (trace c)) Return \<and>
     ls_ok r w0 (initialSettings (app c)) (password (world c)) (set (trace c)) Return \<and>
     stores r w0 c \<and>
     observed r w0 (trace c) \<and>
     isReady (app c) \<and>
     filter sets_ready (trace c) = [Acted Initialize (SetReady True)] \<and>
     guarded sets_ready loads_done (trace c) \<and>
     set loads_done \<subseteq> set (trace c) \<and>
     (\<forall>f opn. Rejected f opn \<in> set (trace c) \<longrightarrow> f = Initialize \<and> opn = HideAsync) \<and>
     (main c = Pending HideAsync (\<lambda>_. MReturn) \<and> splash (world c) = Prevented \<or>
      main c = Aborted \<and> splash (world c) = Prevented \<or>
      main c = Finished \<and> splash (world c) = Hidden)"

definition consistent :: "bool \<Rightarrow> world \<Rightarrow> config \<Rightarrow> bool" where
  "consistent r w0 c \<longleftrightarrow>
     phase0 r w0 c \<or> r \<and> phase1 w0 c \<or> phase2 r w0 c \<or> phase3 r w0 c"

section \<open>Example launches\<close>

text \<open>
  A device with a vault, a stored password, the preference set and biometrics enrolled;
  the same device after the biometrics were removed; with an empty stored password; with
  the empty string stored as the preference.
\<close>

definition device :: world where
  "device =
     \<lparr>vault_exists = True, password = Some ''secret'',
      storage = [''concealTokens'' \<mapsto> ''true''], enrolled = True, splash = AutoHide\<rparr>"

definition unenrolled :: world where
  "unenrolled = device\<lparr>enrolled := False\<rparr>"

definition blank_password :: world where
  "blank_password = device\<lparr>password := Some ''''\<rparr>"

definition blank_preference :: world where
  "blank_preference = device\<lparr>storage := [''concealTokens'' \<mapsto> '''']\<rparr>"

text \<open>
  Every call resolves: the four loads settle one after the other once the splash screen
  is held, \<open>loadSettings\<close> in up to four turns; then \<^verbatim>\<open>hideAsync\<close> resolves.
\<close>

definition loads_resolve :: "choice list" where
  "loads_resolve =
     [Settle_child 2 True, Settle_child 1 True, Settle_child 0 True, Settle_child 1 True,
      Settle_child 3 True, Settle_child 1 True, Settle_child 1 True, Settle_main True]"

definition launch :: "choice list" where
  "launch = Settle_main True # loads_resolve"

text \<open>With a reset: the three deletions resolve first.\<close>

definition reset_launch :: "choice list" where
  "reset_launch =
     [Settle_main True, Settle_child 1 True, Settle_child 0 True, Settle_child 2 True]
       @ loads_resolve"

text \<open>The image preload rejects while the other loads are pending.\<close>

definition images_fail :: "choice list" where
  "images_fail = [Settle_main True, Settle_child 0 True, Settle_child 2 False]"

section \<open>The invariant\<close>

lemma guarded_none: "\<forall>e\<in>set tr. \<not> P e \<Longrightarrow> guarded P req tr"
  by (induction tr) auto

lemma returned_iff [simp]: "returned (f, t) \<longleftrightarrow> t = Return"
  by (cases t) auto

lemma thrown_iff [simp]: "thrown (f, t) \<longleftrightarrow> t = Throw"
  by (cases t) auto

text \<open>The named tasks: what they await, and that they have not settled.\<close>

lemma case_named:
  "case_task a b g h (call opn) = g opn (\<lambda>_. Return)"
  "case_task a b g h checkVault = g DoesVaultExist (\<lambda>v. Do (SetVaultExists v) Return)"
  "case_task a b g h loadSettings =
     g IsEnrolledAsync (\<lambda>v. if \<not> Boolean v then removing else readSettings)"
  "case_task a b g h removing = g RemovePassword (\<lambda>_. readSettings)"
  "case_task a b g h readSettings =
     g GetPassword (\<lambda>p. Await GetConcealTokens (emitSettings (Boolean p)))"
  "case_task a b g h loadImages = g Asset_loadAsync (\<lambda>_. Return)"
  "case_task a b g h loadFonts = g Font_loadAsync (\<lambda>_. Return)"
  unfolding call_def checkVault_def loadSettings_def removing_def readSettings_def
    loadImages_def loadFonts_def
  by simp_all

lemma sync_named:
  "sync f (call opn) a tr = (call opn, a, Called f opn # tr)"
  "sync f checkVault a tr = (checkVault, a, Called f DoesVaultExist # tr)"
  "sync f loadSettings a tr = (loadSettings, a, Called f IsEnrolledAsync # tr)"
  "sync f removing a tr = (removing, a, Called f RemovePassword # tr)"
  "sync f readSettings a tr = (readSettings, a, Called f GetPassword # tr)"
  "sync f loadImages a tr = (loadImages, a, Called f Asset_loadAsync # tr)"
  "sync f loadFonts a tr = (loadFonts, a, Called f Font_loadAsync # tr)"
  by (simp_all add: call_def checkVault_def loadSettings_def removing_def readSettings_def
      loadImages_def loadFonts_def)

lemma unsettled:
  "call opn \<noteq> Return" "call opn \<noteq> Throw" "Return \<noteq> call opn" "Throw \<noteq> call opn"
  "checkVault \<noteq> Return" "checkVault \<noteq> Throw" "Return \<noteq> checkVault" "Throw \<noteq> checkVault"
  "loadSettings \<noteq> Return" "loadSettings \<noteq> Throw" "Return \<noteq> loadSettings"
  "Throw \<noteq> loadSettings"
  "removing \<noteq> Return" "removing \<noteq> Throw" "Return \<noteq> removing" "Throw \<noteq> removing"
  "readSettings \<noteq> Return" "readSettings \<noteq> Throw" "Return \<noteq> readSettings"
  "Throw \<noteq> readSettings"
  "loadImages \<noteq> Return" "loadImages \<noteq> Throw" "Return \<noteq> loadImages" "Throw \<noteq> loadImages"
  "loadFonts \<noteq> Return" "loadFonts \<noteq> Throw" "Return \<noteq> loadFonts" "Throw \<noteq> loadFonts"
  by (simp_all add: call_def checkVault_def loadSettings_def removing_def readSettings_def
      loadImages_def loadFonts_def)

lemmas named = case_named sync_named unsettled

lemma emitSettings_inject: "emitSettings b = emitSettings b' \<longleftrightarrow> b = b'"
  by (auto simp: emitSettings_def fun_eq_iff)

text \<open>The state predicates at each state, and their monotonicity in the events.\<close>

lemma cv_ok_at:
  "cv_ok r w0 v T checkVault \<longleftrightarrow> v = JBool False"
  "cv_ok r w0 v T Throw \<longleftrightarrow> v = JBool False"
  "cv_ok r w0 v T Return \<longleftrightarrow>
     v = JBool (vault_exists (after_reset r w0)) \<and>
     Resolved CheckVault DoesVaultExist (JBool (vault_exists (after_reset r w0))) \<in> T \<and>
     Returned CheckVault \<in> T"
  by (auto simp: cv_ok_def checkVault_def)

lemma cv_ok_insert: "cv_ok r w0 v T t \<Longrightarrow> cv_ok r w0 v (insert e T) t"
  by (auto simp: cv_ok_def)

lemma has_read_insert: "has_read r w0 pw T \<Longrightarrow> has_read r w0 pw (insert e T)"
  by (auto simp: has_read_def)

lemma ls_ok_at:
  "ls_ok r w0 s pw T loadSettings \<longleftrightarrow> s = None \<and> pw = password (after_reset r w0)"
  "ls_ok r w0 s pw T removing \<longleftrightarrow>
     s = None \<and> pw = password (after_reset r w0) \<and> \<not> enrolled w0 \<and>
     Resolved LoadSettings IsEnrolledAsync (JBool False) \<in> T"
  "ls_ok r w0 s pw T readSettings \<longleftrightarrow> s = None \<and> has_read r w0 pw T"
  "ls_ok r w0 s pw T (Await GetConcealTokens (emitSettings b)) \<longleftrightarrow>
     b = unlocks r w0 \<and> s = None \<and> has_read r w0 pw T"
  "ls_ok r w0 s pw T Return \<longleftrightarrow>
     s = Some (snapshot r w0) \<and> Returned LoadSettings \<in> T \<and> has_read r w0 pw T"
  "ls_ok r w0 s pw T Throw \<longleftrightarrow>
     s = None \<and> (pw = password (after_reset r w0) \<or> \<not> enrolled w0 \<and> pw = None)"
  by (auto simp: ls_ok_def loadSettings_def removing_def readSettings_def
      emitSettings_inject)

lemma ls_ok_insert: "ls_ok r w0 s pw T t \<Longrightarrow> ls_ok r w0 s pw (insert e T) t"
  by (auto simp: ls_ok_def has_read_def)

lemma li_ok_at:
  "li_ok T loadImages" "li_ok T Throw" "li_ok T Return \<longleftrightarrow> Returned LoadImages \<in> T"
  by (auto simp: li_ok_def loadImages_def)

lemma li_ok_insert: "li_ok T t \<Longrightarrow> li_ok (insert e T) t"
  by (auto simp: li_ok_def)

lemma lf_ok_at:
  "lf_ok T loadFonts" "lf_ok T Throw" "lf_ok T Return \<longleftrightarrow> Returned LoadFonts \<in> T"
  by (auto simp: lf_ok_def loadFonts_def)

lemma lf_ok_insert: "lf_ok T t \<Longrightarrow> lf_ok (insert e T) t"
  by (auto simp: lf_ok_def)

lemmas states =
  cv_ok_at cv_ok_insert ls_ok_at ls_ok_insert li_ok_at li_ok_insert lf_ok_at lf_ok_insert
  has_read_insert

lemma observed_none: "\<forall>e\<in>set tr. \<not> is_load (who e) \<Longrightarrow> observed r w0 tr"
  by (auto simp: observed_def intro!: guarded_none)

lemma observed_Cons:
  "observed r w0 (e # tr) \<longleftrightarrow>
     observed r w0 tr \<and>
     (\<forall>v. e = Resolved LoadSettings IsEnrolledAsync v \<longrightarrow> v = JBool (enrolled w0)) \<and>
     (\<forall>v. e = Resolved CheckVault DoesVaultExist v \<longrightarrow>
        v = JBool (vault_exists (after_reset r w0))) \<and>
     (\<forall>v. e = Resolved LoadSettings GetPassword v \<longrightarrow>
        v = (case kept r w0 of None \<Rightarrow> JNull | Some p \<Rightarrow> JStr p)) \<and>
     (\<forall>v. e = Resolved LoadSettings GetConcealTokens v \<longrightarrow>
        v = (case storage (after_reset r w0) ''concealTokens'' of
               None \<Rightarrow> JNull | Some x \<Rightarrow> JStr x)) \<and>
     (enrolled w0 \<longrightarrow> e \<noteq> Called LoadSettings RemovePassword) \<and>
     (\<not> enrolled w0 \<and> e = Called LoadSettings GetPassword \<longrightarrow>
        Resolved LoadSettings RemovePassword JUndefined \<in> set tr)"
  by (auto simp: observed_def)

lemma consistent_boot: "consistent r w0 (boot r w0)"
  by (simp add: consistent_def phase0_def boot_def initialize_def)

lemma phase0_step:
  assumes "phase0 r w0 c"
  shows "phase0 r w0 (step ch c) \<or> r \<and> phase1 w0 (step ch c) \<or> phase2 r w0 (step ch c)"
proof (cases ch)
  case (Settle_child i ok)
  with assms show ?thesis by (simp add: phase0_def)
next
  case (Settle_main ok)
  show ?thesis
  proof (cases "main c = Aborted")
    case True
    with assms Settle_main show ?thesis by (simp add: phase0_def)
  next
    case False
    with assms have m: "main c = Pending PreventAutoHideAsync (\<lambda>_. loadAssets r finish)"
      and t: "trace c = [Called Initialize PreventAutoHideAsync]"
      and w: "world c = w0" and a: "app c = app0" and p: "pool c = []"
      by (auto simp: phase0_def)
    show ?thesis
    proof (cases ok)
      case False
      with Settle_main m t w a p show ?thesis by (simp add: phase0_def)
    next
      case True
      show ?thesis
      proof (cases r)
        case True
        with \<open>ok\<close> Settle_main m t w a p have "phase1 w0 (step ch c)"
          by (simp add: phase1_def settled_or_def unready_def joining_def reset_calls_def
              loadAssets_def resets_def named app0_def)
        with True show ?thesis by simp
      next
        case False
        with \<open>ok\<close> Settle_main m t w a p have "phase2 r w0 (step ch c)"
          by (simp add: phase2_def states stores_def observed_Cons observed_none
              unready_def joining_def after_reset_def loadAssets_def loads_def named
              app0_def)
        then show ?thesis by simp
      qed
    qed
  qed
qed


lemma phase1_step:
  assumes "phase1 w0 c"
  shows "phase1 w0 (step ch c) \<or> phase2 True w0 (step ch c)"
proof (cases ch)
  case (Settle_main ok)
  from assms have "main c = Aborted \<or> main c = Joining (MAwaitAll loads finish)"
    by (auto simp: phase1_def joining_def)
  then have "step ch c = c" using Settle_main by auto
  with assms show ?thesis by simp
next
  case (Settle_child i ok)
  from assms obtain d1 d2 d3 where
    p: "pool c = [(Reset_deleteVault, d1), (Reset_removePassword, d2), (Reset_clear, d3)]"
    and s1: "settled_or (call DeleteVault) d1"
    and s2: "settled_or (call RemovePassword) d2"
    and s3: "settled_or (call Clear) d3"
    and r1: "d1 = Return \<longrightarrow> \<not> vault_exists (world c) \<and>
           Resolved Reset_deleteVault DeleteVault JUndefined \<in> set (trace c)"
    and r2: "d2 = Return \<longrightarrow> password (world c) = None \<and>
           Resolved Reset_removePassword RemovePassword JUndefined \<in> set (trace c)"
    and r3: "d3 = Return \<longrightarrow> storage (world c) = Map.empty \<and>
           Resolved Reset_clear Clear JUndefined \<in> set (trace c)"
    and rest: "enrolled (world c) = enrolled w0" "splash (world c) = Prevented"
      "app c = app0" "unready c"
      "Resolved Initialize PreventAutoHideAsync JUndefined \<in> set (trace c)"
      "\<forall>e\<in>set (trace c). \<not> is_load (who e)"
      "reset_calls (trace c) =
         [Called Reset_deleteVault DeleteVault, Called Reset_removePassword RemovePassword,
          Called Reset_clear Clear]"
    and j: "joining (MAwaitAll loads finish) c"
    by (auto simp: phase1_def)
  note facts = p s1 s2 s3 r1 r2 r3 rest
  note stay = phase1_def unready_def joining_def reset_calls_def join_def abort_def
    settled_or_def named
  note go = phase2_def states unready_def joining_def reset_calls_def join_def
    stores_def observed_Cons observed_none after_reset_def reset_done_def
    guarded_none loads_def finish_def named app0_def
  from j p consider
    (A) "main c = Aborted" |
    (J) "main c = Joining (MAwaitAll loads finish)"
      "d1 \<noteq> Throw" "d2 \<noteq> Throw" "d3 \<noteq> Throw"
      "\<forall>f opn. Rejected f opn \<notin> set (trace c)"
    by (auto simp: joining_def)
  note mc = this
  consider "i = 0" | "i = Suc 0" | "i = Suc (Suc 0)" | "3 \<le> i" by arith
  then show ?thesis
  proof cases
    case 4
    with p Settle_child have "step ch c = c" by simp
    with assms show ?thesis by simp
  next
    case 1
    show ?thesis
    proof (cases "d1 = call DeleteVault")
      case False
      with s1 have "d1 = Return \<or> d1 = Throw" by (simp add: settled_or_def)
      with p 1 Settle_child have "step ch c = c" by auto
      with assms show ?thesis by simp
    next
      case a: True
      from mc show ?thesis
      proof cases
        case A
        with a 1 Settle_child facts have "phase1 w0 (step ch c)"
          by (cases ok) (simp_all add: stay)
        then show ?thesis by simp
      next
        case J
        show ?thesis
        proof (cases ok)
          case False
          with J a 1 Settle_child facts have "phase1 w0 (step ch c)"
            by (simp add: stay)
          then show ?thesis by simp
        next
          case True
          consider (fin) "d2 = Return" "d3 = Return" | (w1) "d2 \<noteq> Return" | (w2) "d3 \<noteq> Return"
            by blast
          then show ?thesis
          proof cases
            case w1
            with True J a 1 Settle_child facts have "phase1 w0 (step ch c)"
              by (simp add: stay)
            then show ?thesis by simp
          next
            case w2
            with True J a 1 Settle_child facts have "phase1 w0 (step ch c)"
              by (simp add: stay)
            then show ?thesis by simp
          next
            case fin
            with True J a 1 Settle_child facts have "phase2 True w0 (step ch c)"
              by (simp add: go)
            then show ?thesis by simp
          qed
        qed
      qed
    qed
  next
    case 2
    show ?thesis
    proof (cases "d2 = call RemovePassword")
      case False
      with s2 have "d2 = Return \<or> d2 = Throw" by (simp add: settled_or_def)
      with p 2 Settle_child have "step ch c = c" by auto
      with assms show ?thesis by simp
    next
      case a: True
      from mc show ?thesis
      proof cases
        case A
        with a 2 Settle_child facts have "phase1 w0 (step ch c)"
          by (cases ok) (simp_all add: stay)
        then show ?thesis by simp
      next
        case J
        show ?thesis
        proof (cases ok)
          case False
          with J a 2 Settle_child facts have "phase1 w0 (step ch c)"
            by (simp add: stay)
          then show ?thesis by simp
        next
          case True
          consider (fin) "d1 = Return" "d3 = Return" | (w1) "d1 \<noteq> Return" | (w2) "d3 \<noteq> Return"
            by blast
          then show ?thesis
          proof cases
            case w1
            with True J a 2 Settle_child facts have "phase1 w0 (step ch c)"
              by (simp add: stay)
            then show ?thesis by simp
          next
            case w2
            with True J a 2 Settle_child facts have "phase1 w0 (step ch c)"
              by (simp add: stay)
            then show ?thesis by simp
          next
            case fin
            with True J a 2 Settle_child facts have "phase2 True w0 (step ch c)"
              by (simp add: go)
            then show ?thesis by simp
          qed
        qed
      qed
    qed
  next
    case 3
    show ?thesis
    proof (cases "d3 = call Clear")
      case False
      with s3 have "d3 = Return \<or> d3 = Throw" by (simp add: settled_or_def)
      with p 3 Settle_child have "step ch c = c" by auto
      with assms show ?thesis by simp
    next
      case a: True
      from mc show ?thesis
      proof cases
        case A
        with a 3 Settle_child facts have "phase1 w0 (step ch c)"
          by (cases ok) (simp_all add: stay)
        then show ?thesis by simp
      next
        case J
        show ?thesis
        proof (cases ok)
          case False
          with J a 3 Settle_child facts have "phase1 w0 (step ch c)"
            by (simp add: stay)
          then show ?thesis by simp
        next
          case True
          consider (fin) "d1 = Return" "d2 = Return" | (w1) "d1 \<noteq> Return" | (w2) "d2 \<noteq> Return"
            by blast
          then show ?thesis
          proof cases
            case w1
            with True J a 3 Settle_child facts have "phase1 w0 (step ch c)"
              by (simp add: stay)
            then show ?thesis by simp
          next
            case w2
            with True J a 3 Settle_child facts have "phase1 w0 (step ch c)"
              by (simp add: stay)
            then show ?thesis by simp
          next
            case fin
            with True J a 3 Settle_child facts have "phase2 True w0 (step ch c)"
              by (simp add: go)
            then show ?thesis by simp
          qed
        qed
      qed
    qed
  qed
qed


lemma phase2_step:
  assumes "phase2 r w0 c"
  shows "phase2 r w0 (step ch c) \<or> phase3 r w0 (step ch c)"
proof (cases ch)
  case (Settle_main ok)
  from assms have "main c = Aborted \<or> main c = Joining finish"
    by (auto simp: phase2_def joining_def)
  then have "step ch c = c" using Settle_main by auto
  with assms show ?thesis by simp
next
  case (Settle_child i ok)
  from assms obtain cv ls li lf where
    p: "pool c = [(CheckVault, cv), (LoadSettings, ls), (LoadImages, li), (LoadFonts, lf)]"
    and k1: "cv_ok r w0 (vaultExists (app c)) (set (trace c)) cv"
    and k2: "ls_ok r w0 (initialSettings (app c)) (password (world c)) (set (trace c)) ls"
    and k3: "li_ok (set (trace c)) li"
    and k4: "lf_ok (set (trace c)) lf"
    and rest: "stores r w0 c" "observed r w0 (trace c)" "splash (world c) = Prevented"
      "unready c"
    and j: "joining finish c"
    by (auto simp: phase2_def)
  note facts = p k1 k2 k3 k4 rest
  note stay = phase2_def states has_read_def stores_def observed_Cons
    unready_def joining_def reset_calls_def reset_done_def join_def abort_def
    kept_def unlocks_def conceals_def snapshot_def emitSettings_def named
  note go = phase3_def states has_read_def stores_def observed_Cons
    unready_def joining_def reset_calls_def reset_done_def loads_done_def join_def
    kept_def unlocks_def conceals_def snapshot_def emitSettings_def guarded_none finish_def
    named
  from j p consider
    (A) "main c = Aborted" |
    (J) "main c = Joining finish"
      "cv \<noteq> Throw" "ls \<noteq> Throw" "li \<noteq> Throw" "lf \<noteq> Throw"
      "\<forall>f opn. Rejected f opn \<notin> set (trace c)"
    by (auto simp: joining_def)
  note mc = this
  from k2 consider
    (l0) "ls = loadSettings" | (l1) "ls = removing" | (l2) "ls = readSettings" |
    (l3) "ls = Await GetConcealTokens (emitSettings (unlocks r w0))" |
    (l4) "ls = Return \<or> ls = Throw"
    by (auto simp: ls_ok_def)
  note lc = this
  consider "i = 0" | "i = Suc 0" | "i = Suc (Suc 0)" | "i = Suc (Suc (Suc 0))" | "4 \<le> i"
    by arith
  then show ?thesis
  proof cases
    case 5
    with p Settle_child have "step ch c = c" by simp
    with assms show ?thesis by simp
  next
    case 1
    show ?thesis
    proof (cases "cv = checkVault")
      case False
      with k1 have "cv = Return \<or> cv = Throw" by (auto simp: cv_ok_def)
      with p 1 Settle_child have "step ch c = c" by auto
      with assms show ?thesis by simp
    next
      case a: True
      from mc show ?thesis
      proof cases
        case A
        with a 1 Settle_child facts have "phase2 r w0 (step ch c)"
          by (cases ok) (simp_all add: stay)
        then show ?thesis by simp
      next
        case J
        show ?thesis
        proof (cases ok)
          case False
          with J a 1 Settle_child facts have "phase2 r w0 (step ch c)"
            by (simp add: stay)
          then show ?thesis by simp
        next
          case True
          consider (fin) "ls = Return" "li = Return" "lf = Return" |
            (w1) "ls \<noteq> Return" | (w2) "li \<noteq> Return" | (w3) "lf \<noteq> Return"
            by blast
          then show ?thesis
          proof cases
            case w1
            with True J a 1 Settle_child facts have "phase2 r w0 (step ch c)"
              by (simp add: stay)
            then show ?thesis by simp
          next
            case w2
            with True J a 1 Settle_child facts have "phase2 r w0 (step ch c)"
              by (simp add: stay)
            then show ?thesis by simp
          next
            case w3
            with True J a 1 Settle_child facts have "phase2 r w0 (step ch c)"
              by (simp add: stay)
            then show ?thesis by simp
          next
            case fin
            with True J a 1 Settle_child facts have "phase3 r w0 (step ch c)"
              by (simp add: go)
            then show ?thesis by simp
          qed
        qed
      qed
    qed
  next
    case 2
    from lc show ?thesis
    proof cases
      case l4
      with p 2 Settle_child have "step ch c = c" by auto
      with assms show ?thesis by simp
    next
      case a: l0
      from mc show ?thesis
      proof cases
        case A
        with a 2 Settle_child facts have "phase2 r w0 (step ch c)"
          by (cases ok) (simp_all add: stay)
        then show ?thesis by simp
      next
        case J
        with a 2 Settle_child facts have "phase2 r w0 (step ch c)"
          by (cases ok) (simp_all add: stay)
        then show ?thesis by simp
      qed
    next
      case a: l1
      from mc show ?thesis
      proof cases
        case A
        with a 2 Settle_child facts have "phase2 r w0 (step ch c)"
          by (cases ok) (simp_all add: stay)
        then show ?thesis by simp
      next
        case J
        with a 2 Settle_child facts have "phase2 r w0 (step ch c)"
          by (cases ok) (simp_all add: stay)
        then show ?thesis by simp
      qed
    next
      case a: l2
      from mc show ?thesis
      proof cases
        case A
        with a 2 Settle_child facts have "phase2 r w0 (step ch c)"
          by (cases ok) (simp_all add: stay)
        then show ?thesis by simp
      next
        case J
        with a 2 Settle_child facts have "phase2 r w0 (step ch c)"
          by (cases ok) (simp_all add: stay)
        then show ?thesis by simp
      qed
    next
      case a: l3
      from mc show ?thesis
      proof cases
        case A
        with a 2 Settle_child facts have "phase2 r w0 (step ch c)"
          by (cases ok) (simp_all add: stay)
        then show ?thesis by simp
      next
        case J
        show ?thesis
        proof (cases ok)
          case False
          with J a 2 Settle_child facts have "phase2 r w0 (step ch c)"
            by (simp add: stay)
          then show ?thesis by simp
        next
          case True
          consider (fin) "cv = Return" "li = Return" "lf = Return" |
            (w1) "cv \<noteq> Return" | (w2) "li \<noteq> Return" | (w3) "lf \<noteq> Return"
            by blast
          then show ?thesis
          proof cases
            case w1
            with True J a 2 Settle_child facts have "phase2 r w0 (step ch c)"
              by (simp add: stay)
            then show ?thesis by simp
          next
            case w2
            with True J a 2 Settle_child facts have "phase2 r w0 (step ch c)"
              by (simp add: stay)
            then show ?thesis by simp
          next
            case w3
            with True J a 2 Settle_child facts have "phase2 r w0 (step ch c)"
              by (simp add: stay)
            then show ?thesis by simp
          next
            case fin
            with True J a 2 Settle_child facts have "phase3 r w0 (step ch c)"
              by (simp add: go)
            then show ?thesis by simp
          qed
        qed
      qed
    qed
  next
    case 3
    show ?thesis
    proof (cases "li = loadImages")
      case False
      with k3 have "li = Return \<or> li = Throw" by (auto simp: li_ok_def)
      with p 3 Settle_child have "step ch c = c" by auto
      with assms show ?thesis by simp
    next
      case a: True
      from mc show ?thesis
      proof cases
        case A
        with a 3 Settle_child facts have "phase2 r w0 (step ch c)"
          by (cases ok) (simp_all add: stay)
        then show ?thesis by simp
      next
        case J
        show ?thesis
        proof (cases ok)
          case False
          with J a 3 Settle_child facts have "phase2 r w0 (step ch c)"
            by (simp add: stay)
          then show ?thesis by simp
        next
          case True
          consider (fin) "cv = Return" "ls = Return" "lf = Return" |
            (w1) "cv \<noteq> Return" | (w2) "ls \<noteq> Return" | (w3) "lf \<noteq> Return"
            by blast
          then show ?thesis
          proof cases
            case w1
            with True J a 3 Settle_child facts have "phase2 r w0 (step ch c)"
              by (simp add: stay)
            then show ?thesis by simp
          next
            case w2
            with True J a 3 Settle_child facts have "phase2 r w0 (step ch c)"
              by (simp add: stay)
            then show ?thesis by simp
          next
            case w3
            with True J a 3 Settle_child facts have "phase2 r w0 (step ch c)"
              by (simp add: stay)
            then show ?thesis by simp
          next
            case fin
            with True J a 3 Settle_child facts have "phase3 r w0 (step ch c)"
              by (simp add: go)
            then show ?thesis by simp
          qed
        qed
      qed
    qed
  next
    case 4
    show ?thesis
    proof (cases "lf = loadFonts")
      case False
      with k4 have "lf = Return \<or> lf = Throw" by (auto simp: lf_ok_def)
      with p 4 Settle_child have "step ch c = c" by auto
      with assms show ?thesis by simp
    next
      case a: True
      from mc show ?thesis
      proof cases
        case A
        with a 4 Settle_child facts have "phase2 r w0 (step ch c)"
          by (cases ok) (simp_all add: stay)
        then show ?thesis by simp
      next
        case J
        show ?thesis
        proof (cases ok)
          case False
          with J a 4 Settle_child facts have "phase2 r w0 (step ch c)"
            by (simp add: stay)
          then show ?thesis by simp
        next
          case True
          consider (fin) "cv = Return" "ls = Return" "li = Return" |
            (w1) "cv \<noteq> Return" | (w2) "ls \<noteq> Return" | (w3) "li \<noteq> Return"
            by blast
          then show ?thesis
          proof cases
            case w1
            with True J a 4 Settle_child facts have "phase2 r w0 (step ch c)"
              by (simp add: stay)
            then show ?thesis by simp
          next
            case w2
            with True J a 4 Settle_child facts have "phase2 r w0 (step ch c)"
              by (simp add: stay)
            then show ?thesis by simp
          next
            case w3
            with True J a 4 Settle_child facts have "phase2 r w0 (step ch c)"
              by (simp add: stay)
            then show ?thesis by simp
          next
            case fin
            with True J a 4 Settle_child facts have "phase3 r w0 (step ch c)"
              by (simp add: go)
            then show ?thesis by simp
          qed
        qed
      qed
    qed
  qed
qed


lemma phase3_step:
  assumes "phase3 r w0 c"
  shows "phase3 r w0 (step ch c)"
proof (cases ch)
  case (Settle_child i ok)
  from assms have
    p: "pool c = [(CheckVault, Return), (LoadSettings, Return), (LoadImages, Return),
        (LoadFonts, Return)]"
    by (simp add: phase3_def)
  consider "i = 0" | "i = Suc 0" | "i = Suc (Suc 0)" | "i = Suc (Suc (Suc 0))" | "4 \<le> i"
    by arith
  then have "step ch c = c" using p Settle_child by cases simp_all
  with assms show ?thesis by simp
next
  case (Settle_main ok)
  from assms consider
    (P) "main c = Pending HideAsync (\<lambda>_. MReturn)" | (A) "main c = Aborted" |
    (F) "main c = Finished"
    by (auto simp: phase3_def)
  then show ?thesis
  proof cases
    case A
    with Settle_main have "step ch c = c" by simp
    with assms show ?thesis by simp
  next
    case F
    with Settle_main have "step ch c = c" by simp
    with assms show ?thesis by simp
  next
    case P
    with Settle_main assms show ?thesis
      by (cases ok)
        (simp_all add: phase3_def states has_read_def stores_def observed_Cons
          reset_calls_def reset_done_def loads_done_def)
  qed
qed

lemma consistent_step:
  assumes "consistent r w0 c"
  shows "consistent r w0 (step ch c)"
proof -
  from assms consider
    (0) "phase0 r w0 c" | (1) "r = True" "phase1 w0 c" | (2) "phase2 r w0 c" |
    (3) "phase3 r w0 c"
    by (auto simp: consistent_def)
  then show ?thesis
  proof cases
    case 0
    from phase0_step [OF this, of ch] show ?thesis by (auto simp: consistent_def)
  next
    case 1
    from phase1_step [OF 1(2), of ch] 1(1) show ?thesis by (auto simp: consistent_def)
  next
    case 2
    from phase2_step [OF this, of ch] show ?thesis by (auto simp: consistent_def)
  next
    case 3
    from phase3_step [OF this, of ch] show ?thesis by (auto simp: consistent_def)
  qed
qed

lemma consistent_run: "consistent r w0 c \<Longrightarrow> consistent r w0 (run cs c)"
  by (induction cs arbitrary: c) (simp_all add: consistent_step)

lemma reachable: "consistent r w0 (run cs (boot r w0))"
  by (simp add: consistent_run consistent_boot)

section \<open>Runs and their traces\<close>

lemma sync_trace: "set tr \<subseteq> set (snd (snd (sync f t a tr)))"
  by (induction t arbitrary: a tr) (auto simp: subset_iff)

lemma start_all_trace: "set tr \<subseteq> set (snd (snd (start_all ts a tr)))"
proof (induction ts arbitrary: a tr)
  case Nil
  then show ?case by simp
next
  case (Cons x ts)
  obtain f t where x: "x = (f, t)" by (cases x)
  obtain t' a' tr' where s: "sync f t a tr = (t', a', tr')" by (cases "sync f t a tr")
  obtain ts' a'' tr'' where r: "start_all ts a' tr' = (ts', a'', tr'')"
    by (cases "start_all ts a' tr'")
  from sync_trace [of tr f t a] s have "set tr \<subseteq> set tr'" by simp
  moreover from Cons.IH [of tr' a'] r have "set tr' \<subseteq> set tr''" by simp
  ultimately show ?case using x s r by simp
qed

lemma advance_trace: "set (trace c) \<subseteq> set (trace (advance m c))"
proof (induction m arbitrary: c)
  case MReturn
  then show ?case by auto
next
  case (MAwait opn k)
  then show ?case by auto
next
  case (MDo x m)
  have "set (trace c) \<subseteq> set (trace (c\<lparr>app := act x (app c), trace := Acted Initialize x # trace c\<rparr>))"
    by auto
  also have "\<dots> \<subseteq> set (trace (advance (MDo x m) c))"
    using MDo [of "c\<lparr>app := act x (app c), trace := Acted Initialize x # trace c\<rparr>"] by simp
  finally show ?case .
next
  case (MAwaitAll ts m)
  obtain ts' a' tr' where s: "start_all ts (app c) (trace c) = (ts', a', tr')"
    by (cases "start_all ts (app c) (trace c)")
  from start_all_trace [of "trace c" ts "app c"] s have 1: "set (trace c) \<subseteq> set tr'" by simp
  from MAwaitAll [of "c\<lparr>app := a', pool := ts', trace := tr'\<rparr>"]
  have 2: "set tr' \<subseteq> set (trace (advance m (c\<lparr>app := a', pool := ts', trace := tr'\<rparr>)))"
    by simp
  from s 1 2 show ?case by (auto simp: Let_def)
qed

lemma join_trace: "set (trace c) \<subseteq> set (trace (join c))"
  using advance_trace by (auto simp: join_def split: mstate.splits)

lemma abort_trace: "trace (abort c) = trace c"
  by (simp add: abort_def split: mstate.splits)

lemma step_trace: "set (trace c) \<subseteq> set (trace (step ch c))"
proof (cases ch)
  case (Settle_main ok)
  show ?thesis
  proof (cases "main c")
    case (Pending opn k)
    obtain v w' where pf: "perform opn (world c) = (v, w')" by (cases "perform opn (world c)")
    from advance_trace [of "c\<lparr>world := w', trace := Resolved Initialize opn v # trace c\<rparr>" "k v"]
    have "set (trace c) \<subseteq>
      set (trace (advance (k v) (c\<lparr>world := w', trace := Resolved Initialize opn v # trace c\<rparr>)))"
      by auto
    with Settle_main Pending pf show ?thesis by auto
  qed (use Settle_main in auto)
next
  case (Settle_child i ok)
  show ?thesis
  proof (cases "i < length (pool c)")
    case False
    with Settle_child show ?thesis by simp
  next
    case True
    obtain f t where ft: "pool c ! i = (f, t)" by (cases "pool c ! i")
    show ?thesis
    proof (cases t)
      case (Await opn k)
      obtain v w' where pf: "perform opn (world c) = (v, w')"
        by (cases "perform opn (world c)")
      obtain t' a' tr' where s: "sync f (k v) (app c) (Resolved f opn v # trace c) = (t', a', tr')"
        by (cases "sync f (k v) (app c) (Resolved f opn v # trace c)")
      from sync_trace [of "Resolved f opn v # trace c" f "k v" "app c"] s
      have 1: "set (trace c) \<subseteq> set tr'" by auto
      from join_trace [of "c\<lparr>world := w', app := a', trace := tr', pool := (pool c)[i := (f, t')]\<rparr>"]
      have 2: "set tr' \<subseteq> set (trace (join (c\<lparr>world := w', app := a', trace := tr',
          pool := (pool c)[i := (f, t')]\<rparr>)))" by simp
      from Settle_child True ft Await pf s 1 2 show ?thesis
        by (cases ok) (auto simp: abort_trace)
    qed (use Settle_child True ft in auto)
  qed
qed

lemma run_trace: "set (trace c) \<subseteq> set (trace (run cs c))"
proof (induction cs arbitrary: c)
  case Nil
  then show ?case by simp
next
  case (Cons x cs)
  from step_trace [of c x] Cons [of "step x c"] show ?case by auto
qed

section \<open>What holds in every reachable configuration\<close>

lemma phase3_run: "phase3 r w0 c \<Longrightarrow> phase3 r w0 (run cs c)"
  by (induction cs arbitrary: c) (simp_all add: phase3_step)

lemma ready_phase3: "consistent r w0 c \<Longrightarrow> isReady (app c) \<Longrightarrow> phase3 r w0 c"
  by (auto simp: consistent_def phase0_def phase1_def phase2_def unready_def app0_def)

lemma unready_events:
  "consistent r w0 c \<Longrightarrow> \<not> isReady (app c) \<Longrightarrow> filter sets_ready (trace c) = []"
  by (auto simp: consistent_def phase0_def phase1_def phase2_def phase3_def unready_def
      filter_empty_conv)

lemma ready_events:
  "phase3 r w0 c \<Longrightarrow> filter sets_ready (trace c) = [Acted Initialize (SetReady True)]"
  by (simp add: phase3_def)

lemma consistent_observed: "consistent r w0 c \<Longrightarrow> observed r w0 (trace c)"
  by (auto simp: consistent_def phase0_def phase1_def phase2_def phase3_def observed_Cons
      observed_none)

lemma consistent_order:
  "consistent r w0 c \<Longrightarrow>
     (r \<longrightarrow> guarded (\<lambda>e. is_load (who e)) reset_done (trace c)) \<and>
     (\<not> r \<longrightarrow> (\<forall>e\<in>set (trace c). \<not> is_reset (who e)))"
  by (auto simp: consistent_def phase0_def phase1_def phase2_def phase3_def stores_def
      intro!: guarded_none)

lemma consistent_settings:
  assumes "consistent r w0 c" and "initialSettings (app c) = Some s"
  shows "s = snapshot r w0 \<and> has_read r w0 (password (world c)) (set (trace c)) \<and>
    storage (world c) = storage (after_reset r w0)"
proof -
  from assms consider (2) "phase2 r w0 c" | (3) "phase3 r w0 c"
    by (auto simp: consistent_def phase0_def phase1_def app0_def)
  then show ?thesis
  proof cases
    case 2
    then obtain ls where
      "ls_ok r w0 (initialSettings (app c)) (password (world c)) (set (trace c)) ls"
      and "stores r w0 c"
      by (auto simp: phase2_def)
    with assms(2) show ?thesis by (auto simp: ls_ok_def stores_def)
  next
    case 3
    with assms(2) show ?thesis by (auto simp: phase3_def ls_ok_at stores_def)
  qed
qed

lemma consistent_password:
  assumes "consistent r w0 c" and "enrolled w0" and "password (after_reset r w0) = Some p"
  shows "password (world c) = Some p"
proof -
  from assms(3) have r: "\<not> r" "password w0 = Some p"
    by (auto simp: after_reset_def split: if_splits)
  from assms(1) r(1) consider (0) "phase0 r w0 c" | (2) "phase2 r w0 c" | (3) "phase3 r w0 c"
    by (auto simp: consistent_def)
  then show ?thesis
  proof cases
    case 0
    with r show ?thesis by (simp add: phase0_def)
  next
    case 2
    then obtain ls where
      "ls_ok r w0 (initialSettings (app c)) (password (world c)) (set (trace c)) ls"
      by (auto simp: phase2_def)
    with assms(2,3) show ?thesis by (auto simp: ls_ok_def has_read_def kept_def)
  next
    case 3
    with assms(2,3) show ?thesis by (auto simp: phase3_def ls_ok_at has_read_def kept_def)
  qed
qed

lemma consistent_reset:
  assumes "consistent True w0 c"
  shows "(Resolved Initialize PreventAutoHideAsync JUndefined \<in> set (trace c) \<longrightarrow>
      reset_calls (trace c) =
        [Called Reset_deleteVault DeleteVault, Called Reset_removePassword RemovePassword,
         Called Reset_clear Clear]) \<and>
    (isReady (app c) \<longrightarrow>
      \<not> vault_exists (world c) \<and> password (world c) = None \<and>
      storage (world c) = Map.empty)"
proof -
  from assms consider (0) "phase0 True w0 c" | (1) "phase1 w0 c" | (2) "phase2 True w0 c" |
    (3) "phase3 True w0 c"
    by (auto simp: consistent_def)
  then show ?thesis
  proof cases
    case 0
    then show ?thesis by (auto simp: phase0_def app0_def)
  next
    case 1
    then show ?thesis by (auto simp: phase1_def unready_def app0_def)
  next
    case 2
    then show ?thesis by (simp add: phase2_def unready_def stores_def)
  next
    case 3
    then show ?thesis
      by (simp add: phase3_def stores_def ls_ok_at has_read_def kept_def after_reset_def)
  qed
qed

lemma rejected_unready:
  assumes "consistent r w0 c" and "Rejected f opn \<in> set (trace c)" and "opn \<noteq> HideAsync"
  shows "\<not> isReady (app c)"
proof
  assume "isReady (app c)"
  with assms(1) have "phase3 r w0 c" by (rule ready_phase3)
  with assms(2,3) show False by (auto simp: phase3_def)
qed

lemma load_rejected:
  assumes "consistent r w0 c" and "Rejected f opn \<in> set (trace c)" and "is_load f"
  shows "\<not> isReady (app c) \<and> splash (world c) = Prevented \<and>
    Called Initialize HideAsync \<notin> set (trace c)"
proof -
  have "\<not> phase3 r w0 c"
  proof
    assume "phase3 r w0 c"
    with assms(2) have "f = Initialize" by (simp add: phase3_def)
    with assms(3) show False by simp
  qed
  moreover have "\<not> phase0 r w0 c"
    using assms(2,3) by (auto simp: phase0_def)
  moreover have "\<not> phase1 w0 c"
  proof
    assume "phase1 w0 c"
    then have "\<forall>e\<in>set (trace c). \<not> is_load (who e)" by (simp add: phase1_def)
    with assms(2) have "\<not> is_load (who (Rejected f opn))" by blast
    with assms(3) show False by simp
  qed
  ultimately have "phase2 r w0 c"
    using assms(1) by (auto simp: consistent_def)
  then show ?thesis by (simp add: phase2_def unready_def)
qed

lemma ready_joined:
  assumes "phase3 r w0 c"
  shows "set loads_done \<subseteq> set (trace c) \<and> guarded sets_ready loads_done (trace c) \<and>
    pool c =
      [(CheckVault, Return), (LoadSettings, Return), (LoadImages, Return), (LoadFonts, Return)]"
  using assms by (simp add: phase3_def)

lemma ready_vault:
  assumes "phase3 r w0 c"
  shows "vaultExists (app c) = JBool (vault_exists (after_reset r w0)) \<and>
    Resolved CheckVault DoesVaultExist (JBool (vault_exists (after_reset r w0)))
      \<in> set (trace c)"
  using assms by (simp add: phase3_def cv_ok_at)

section \<open>The example launches, evaluated\<close>

lemmas evaluate =
  boot_def initialize_def loadAssets_def finish_def loads_def resets_def call_def
  checkVault_def loadSettings_def readSettings_def emitSettings_def loadImages_def
  loadFonts_def join_def abort_def app0_def

lemma run_launch_device:
  "run launch (boot False device) =
     \<lparr>world = \<lparr>vault_exists = True, password = Some ''secret'',
               storage = [''concealTokens'' \<mapsto> ''true''], enrolled = True,
               splash = Hidden\<rparr>,
      app = \<lparr>vaultExists = JBool True,
             initialSettings = Some \<lparr>biometricUnlock = True, concealTokens = True\<rparr>,
             isReady = True\<rparr>,
      main = Finished,
      pool = [(CheckVault, Return), (LoadSettings, Return), (LoadImages, Return),
              (LoadFonts, Return)],
      trace =
        [Returned Initialize, Resolved Initialize HideAsync JUndefined,
         Called Initialize HideAsync, Acted Initialize (SetReady True),
         Returned LoadSettings,
         Acted LoadSettings
           (SetInitialSettings \<lparr>biometricUnlock = True, concealTokens = True\<rparr>),
         Resolved LoadSettings GetConcealTokens (JStr ''true''),
         Returned LoadFonts, Resolved LoadFonts Font_loadAsync JUndefined,
         Called LoadSettings GetConcealTokens,
         Resolved LoadSettings GetPassword (JStr ''secret''), Returned CheckVault,
         Acted CheckVault (SetVaultExists (JBool True)),
         Resolved CheckVault DoesVaultExist (JBool True),
         Called LoadSettings GetPassword,
         Resolved LoadSettings IsEnrolledAsync (JBool True), Returned LoadImages,
         Resolved LoadImages Asset_loadAsync JUndefined,
         Called LoadFonts Font_loadAsync, Called LoadImages Asset_loadAsync,
         Called LoadSettings IsEnrolledAsync, Called CheckVault DoesVaultExist,
         Resolved Initialize PreventAutoHideAsync JUndefined,
         Called Initialize PreventAutoHideAsync]\<rparr>"
  by (simp add: evaluate launch_def loads_resolve_def device_def)

lemma run_launch_unenrolled:
  "run launch (boot False unenrolled) =
     \<lparr>world = \<lparr>vault_exists = True, password = None,
               storage = [''concealTokens'' \<mapsto> ''true''], enrolled = False,
               splash = Hidden\<rparr>,
      app = \<lparr>vaultExists = JBool True,
             initialSettings = Some \<lparr>biometricUnlock = False, concealTokens = True\<rparr>,
             isReady = True\<rparr>,
      main = Finished,
      pool = [(CheckVault, Return), (LoadSettings, Return), (LoadImages, Return),
              (LoadFonts, Return)],
      trace =
        [Returned Initialize, Resolved Initialize HideAsync JUndefined,
         Called Initialize HideAsync, Acted Initialize (SetReady True),
         Returned LoadSettings,
         Acted LoadSettings
           (SetInitialSettings \<lparr>biometricUnlock = False, concealTokens = True\<rparr>),
         Resolved LoadSettings GetConcealTokens (JStr ''true''),
         Called LoadSettings GetConcealTokens,
         Resolved LoadSettings GetPassword JNull, Returned LoadFonts,
         Resolved LoadFonts Font_loadAsync JUndefined,
         Called LoadSettings GetPassword,
         Resolved LoadSettings RemovePassword JUndefined, Returned CheckVault,
         Acted CheckVault (SetVaultExists (JBool True)),
         Resolved CheckVault DoesVaultExist (JBool True),
         Called LoadSettings RemovePassword,
         Resolved LoadSettings IsEnrolledAsync (JBool False), Returned LoadImages,
         Resolved LoadImages Asset_loadAsync JUndefined,
         Called LoadFonts Font_loadAsync, Called LoadImages Asset_loadAsync,
         Called LoadSettings IsEnrolledAsync, Called CheckVault DoesVaultExist,
         Resolved Initialize PreventAutoHideAsync JUndefined,
         Called Initialize PreventAutoHideAsync]\<rparr>"
  by (simp add: evaluate launch_def loads_resolve_def unenrolled_def device_def)

lemma run_reset_launch_device:
  "run reset_launch (boot True device) =
     \<lparr>world = \<lparr>vault_exists = False, password = None, storage = Map.empty,
               enrolled = True, splash = Hidden\<rparr>,
      app = \<lparr>vaultExists = JBool False,
             initialSettings = Some \<lparr>biometricUnlock = False, concealTokens = False\<rparr>,
             isReady = True\<rparr>,
      main = Finished,
      pool = [(CheckVault, Return), (LoadSettings, Return), (LoadImages, Return),
              (LoadFonts, Return)],
      trace =
        [Returned Initialize, Resolved Initialize HideAsync JUndefined,
         Called Initialize HideAsync, Acted Initialize (SetReady True),
         Returned LoadSettings,
         Acted LoadSettings
           (SetInitialSettings \<lparr>biometricUnlock = False, concealTokens = False\<rparr>),
         Resolved LoadSettings GetConcealTokens JNull, Returned LoadFonts,
         Resolved LoadFonts Font_loadAsync JUndefined,
         Called LoadSettings GetConcealTokens,
         Resolved LoadSettings GetPassword JNull, Returned CheckVault,
         Acted CheckVault (SetVaultExists (JBool False)),
         Resolved CheckVault DoesVaultExist (JBool False),
         Called LoadSettings GetPassword,
         Resolved LoadSettings IsEnrolledAsync (JBool True), Returned LoadImages,
         Resolved LoadImages Asset_loadAsync JUndefined,
         Called LoadFonts Font_loadAsync, Called LoadImages Asset_loadAsync,
         Called LoadSettings IsEnrolledAsync, Called CheckVault DoesVaultExist,
         Returned Reset_clear, Resolved Reset_clear Clear JUndefined,
         Returned Reset_deleteVault,
         Resolved Reset_deleteVault DeleteVault JUndefined,
         Returned Reset_removePassword,
         Resolved Reset_removePassword RemovePassword JUndefined,
         Called Reset_clear Clear, Called Reset_removePassword RemovePassword,
         Called Reset_deleteVault DeleteVault,
         Resolved Initialize PreventAutoHideAsync JUndefined,
         Called Initialize PreventAutoHideAsync]\<rparr>"
  by (simp add: evaluate reset_launch_def loads_resolve_def device_def)

lemma run_images_fail_device:
  "run images_fail (boot False device) =
     \<lparr>world = \<lparr>vault_exists = True, password = Some ''secret'',
               storage = [''concealTokens'' \<mapsto> ''true''], enrolled = True,
               splash = Prevented\<rparr>,
      app = \<lparr>vaultExists = JBool True, initialSettings = None, isReady = False\<rparr>,
      main = Aborted,
      pool = [(CheckVault, Return), (LoadSettings, loadSettings), (LoadImages, Throw),
              (LoadFonts, loadFonts)],
      trace =
        [Rejected LoadImages Asset_loadAsync, Returned CheckVault,
         Acted CheckVault (SetVaultExists (JBool True)),
         Resolved CheckVault DoesVaultExist (JBool True),
         Called LoadFonts Font_loadAsync, Called LoadImages Asset_loadAsync,
         Called LoadSettings IsEnrolledAsync, Called CheckVault DoesVaultExist,
         Resolved Initialize PreventAutoHideAsync JUndefined,
         Called Initialize PreventAutoHideAsync]\<rparr>"
  by (simp add: evaluate images_fail_def device_def)

lemma run_launch_after_failure:
  "run launch (run images_fail (boot False device)) =
     \<lparr>world = \<lparr>vault_exists = True, password = Some ''secret'',
               storage = [''concealTokens'' \<mapsto> ''true''], enrolled = True,
               splash = Prevented\<rparr>,
      app = \<lparr>vaultExists = JBool True,
             initialSettings = Some \<lparr>biometricUnlock = True, concealTokens = True\<rparr>,
             isReady = False\<rparr>,
      main = Aborted,
      pool = [(CheckVault, Return), (LoadSettings, Return), (LoadImages, Throw),
              (LoadFonts, Return)],
      trace =
        [Returned LoadSettings,
         Acted LoadSettings
           (SetInitialSettings \<lparr>biometricUnlock = True, concealTokens = True\<rparr>),
         Resolved LoadSettings GetConcealTokens (JStr ''true''),
         Returned LoadFonts, Resolved LoadFonts Font_loadAsync JUndefined,
         Called LoadSettings GetConcealTokens,
         Resolved LoadSettings GetPassword (JStr ''secret''),
         Called LoadSettings GetPassword,
         Resolved LoadSettings IsEnrolledAsync (JBool True),
         Rejected LoadImages Asset_loadAsync, Returned CheckVault,
         Acted CheckVault (SetVaultExists (JBool True)),
         Resolved CheckVault DoesVaultExist (JBool True),
         Called LoadFonts Font_loadAsync, Called LoadImages Asset_loadAsync,
         Called LoadSettings IsEnrolledAsync, Called CheckVault DoesVaultExist,
         Resolved Initialize PreventAutoHideAsync JUndefined,
         Called Initialize PreventAutoHideAsync]\<rparr>"
  by (simp add: evaluate launch_def loads_resolve_def images_fail_def device_def)

lemma run_launch_blank_password:
  "app (run launch (boot False blank_password)) =
     \<lparr>vaultExists = JBool True,
      initialSettings = Some \<lparr>biometricUnlock = False, concealTokens = True\<rparr>,
      isReady = True\<rparr> \<and>
   password (world (run launch (boot False blank_password))) = Some ''''"
  by (simp add: evaluate launch_def loads_resolve_def blank_password_def device_def)

lemma run_launch_blank_preference:
  "app (run launch (boot False blank_preference)) =
     \<lparr>vaultExists = JBool True,
      initialSettings = Some \<lparr>biometricUnlock = True, concealTokens = False\<rparr>,
      isReady = True\<rparr> \<and>
   storage (world (run launch (boot False blank_preference))) ''concealTokens'' = Some ''''"
  by (simp add: evaluate launch_def loads_resolve_def blank_preference_def device_def)

section \<open>The properties of a launch\<close>

lemma consistent_launch: "c = run cs (boot r w0) \<Longrightarrow> consistent r w0 c"
  by (simp add: reachable)

text \<open>
  C1. In every launch in which the biometric enrolment query returns false,
  \<open>loadSettings\<close> removes the stored password before it reads it: the read is called only
  after the removal has resolved, and once the settings are emitted the removal has
  happened, the secure store holds no password and \<open>biometricUnlock\<close> is false, whatever
  was stored before. Equivalently, emitted settings with \<open>biometricUnlock\<close> true imply that
  the enrolment query resolved with true in this launch.
\<close>

theorem unenrolled_password_removed:
  assumes "c = run cs (boot r w0)"
  shows "(Resolved LoadSettings IsEnrolledAsync v \<in> set (trace c) \<and> \<not> Boolean v \<longrightarrow>
            guarded (\<lambda>e. e = Called LoadSettings GetPassword)
              [Resolved LoadSettings RemovePassword JUndefined] (trace c) \<and>
            (\<forall>s. initialSettings (app c) = Some s \<longrightarrow>
               Resolved LoadSettings RemovePassword JUndefined \<in> set (trace c) \<and>
               password (world c) = None \<and> \<not> biometricUnlock s)) \<and>
         (\<forall>s. initialSettings (app c) = Some s \<and> biometricUnlock s \<longrightarrow>
            Resolved LoadSettings IsEnrolledAsync (JBool True) \<in> set (trace c))"
proof -
  from assms have inv: "consistent r w0 c" by (rule consistent_launch)
  then have obs: "observed r w0 (trace c)" by (rule consistent_observed)
  have first: "guarded (\<lambda>e. e = Called LoadSettings GetPassword)
              [Resolved LoadSettings RemovePassword JUndefined] (trace c) \<and>
            (\<forall>s. initialSettings (app c) = Some s \<longrightarrow>
               Resolved LoadSettings RemovePassword JUndefined \<in> set (trace c) \<and>
               password (world c) = None \<and> \<not> biometricUnlock s)"
    if seen: "Resolved LoadSettings IsEnrolledAsync v \<in> set (trace c)" and no: "\<not> Boolean v"
  proof -
    from obs seen have "v = JBool (enrolled w0)" by (simp add: observed_def)
    with no have un: "\<not> enrolled w0" by simp
    with obs have "guarded (\<lambda>e. e = Called LoadSettings GetPassword)
              [Resolved LoadSettings RemovePassword JUndefined] (trace c)"
      by (simp add: observed_def)
    moreover have "Resolved LoadSettings RemovePassword JUndefined \<in> set (trace c) \<and>
               password (world c) = None \<and> \<not> biometricUnlock s"
      if "initialSettings (app c) = Some s" for s
      using consistent_settings [OF inv that] un
      by (simp add: has_read_def kept_def snapshot_def unlocks_def)
    ultimately show ?thesis by blast
  qed
  have second: "Resolved LoadSettings IsEnrolledAsync (JBool True) \<in> set (trace c)"
    if "initialSettings (app c) = Some s" and "biometricUnlock s" for s
  proof -
    from consistent_settings [OF inv that(1)] that(2)
    have "unlocks r w0" and r: "has_read r w0 (password (world c)) (set (trace c))"
      by (simp_all add: snapshot_def)
    then have "enrolled w0" by (auto simp: unlocks_def kept_def split: if_splits)
    with r show ?thesis by (simp add: has_read_def)
  qed
  from first second show ?thesis by blast
qed

theorem unenrolled_password_removed_witness:
  "Resolved LoadSettings IsEnrolledAsync (JBool False)
     \<in> set (trace (run launch (boot False unenrolled))) \<and>
   \<not> Boolean (JBool False) \<and>
   password unenrolled = Some ''secret'' \<and>
   guarded (\<lambda>e. e = Called LoadSettings GetPassword)
     [Resolved LoadSettings RemovePassword JUndefined]
     (trace (run launch (boot False unenrolled))) \<and>
   initialSettings (app (run launch (boot False unenrolled))) =
     Some \<lparr>biometricUnlock = False, concealTokens = True\<rparr> \<and>
   password (world (run launch (boot False unenrolled))) = None \<and>
   initialSettings (app (run launch (boot False device))) =
     Some \<lparr>biometricUnlock = True, concealTokens = True\<rparr> \<and>
   Resolved LoadSettings IsEnrolledAsync (JBool True)
     \<in> set (trace (run launch (boot False device)))"
proof -
  have "password unenrolled = Some ''secret''"
    by (simp add: unenrolled_def device_def)
  then show ?thesis
    using
      unenrolled_password_removed [where cs = launch and r = False and ?w0.0 = unenrolled
        and v = "JBool False", OF refl]
      unenrolled_password_removed [where cs = launch and r = False and ?w0.0 = device
        and v = "JBool False", OF refl]
    by (simp add: run_launch_unenrolled run_launch_device)
qed

text \<open>
  C2. In every launch with the reset directive, once \<open>loadAssets\<close> runs, the reset makes
  exactly three calls: the vault deletion, the password removal and the clearing of the
  key-value store. Once the bootstrap has completed (the component is ready), there is no
  vault, no stored password and no preference, whatever the device held before.
\<close>

theorem reset_wipes_stores:
  assumes "c = run cs (boot True w0)"
  shows "(Resolved Initialize PreventAutoHideAsync JUndefined \<in> set (trace c) \<longrightarrow>
            reset_calls (trace c) =
              [Called Reset_deleteVault DeleteVault,
               Called Reset_removePassword RemovePassword,
               Called Reset_clear Clear]) \<and>
         (isReady (app c) \<longrightarrow>
            \<not> vault_exists (world c) \<and> password (world c) = None \<and>
            storage (world c) ''concealTokens'' = None \<and> storage (world c) = Map.empty)"
  using consistent_reset [OF consistent_launch [OF assms]] by simp

theorem reset_wipes_stores_witness:
  "vault_exists device \<and> password device = Some ''secret'' \<and>
   storage device ''concealTokens'' = Some ''true'' \<and>
   Resolved Initialize PreventAutoHideAsync JUndefined
     \<in> set (trace (run reset_launch (boot True device))) \<and>
   reset_calls (trace (run reset_launch (boot True device))) =
     [Called Reset_deleteVault DeleteVault, Called Reset_removePassword RemovePassword,
      Called Reset_clear Clear] \<and>
   isReady (app (run reset_launch (boot True device))) \<and>
   \<not> vault_exists (world (run reset_launch (boot True device))) \<and>
   password (world (run reset_launch (boot True device))) = None \<and>
   storage (world (run reset_launch (boot True device))) ''concealTokens'' = None"
proof -
  have "vault_exists device \<and> password device = Some ''secret'' \<and>
    storage device ''concealTokens'' = Some ''true''"
    by (simp add: device_def)
  then show ?thesis
    using reset_wipes_stores [where cs = reset_launch and ?w0.0 = device, OF refl]
    by (simp add: run_reset_launch_device)
qed

text \<open>
  C3. The component becomes ready only after all four loads have returned: when it is
  ready, the four loads have returned, and every event that sets the readiness happened
  after the four returns. If a call of one of the four loads rejects, the component is
  never ready afterwards, \<^verbatim>\<open>hideAsync\<close> is never called and the splash screen is never
  hidden.
\<close>

theorem readiness_joins_loads:
  assumes "c = run cs (boot r w0)" and "c' = run cs' c"
  shows "(isReady (app c) \<longrightarrow>
            pool c =
              [(CheckVault, Return), (LoadSettings, Return), (LoadImages, Return),
               (LoadFonts, Return)] \<and>
            set loads_done \<subseteq> set (trace c) \<and>
            guarded sets_ready loads_done (trace c)) \<and>
         (is_load f \<and> Rejected f opn \<in> set (trace c) \<longrightarrow>
            \<not> isReady (app c') \<and> Called Initialize HideAsync \<notin> set (trace c') \<and>
            splash (world c') \<noteq> Hidden)"
proof -
  from assms(1) have inv: "consistent r w0 c" by (rule consistent_launch)
  with assms(2) have inv': "consistent r w0 c'" by (simp add: consistent_run)
  have "pool c =
      [(CheckVault, Return), (LoadSettings, Return), (LoadImages, Return),
       (LoadFonts, Return)] \<and>
    set loads_done \<subseteq> set (trace c) \<and> guarded sets_ready loads_done (trace c)"
    if "isReady (app c)"
    using ready_joined [OF ready_phase3 [OF inv that]] by simp
  moreover have "\<not> isReady (app c') \<and> Called Initialize HideAsync \<notin> set (trace c') \<and>
      splash (world c') \<noteq> Hidden"
    if "is_load f" and "Rejected f opn \<in> set (trace c)"
  proof -
    from that(2) assms(2) run_trace [of c cs'] have "Rejected f opn \<in> set (trace c')"
      by auto
    from load_rejected [OF inv' this that(1)] show ?thesis by simp
  qed
  ultimately show ?thesis by blast
qed

theorem readiness_joins_loads_witness:
  "isReady (app (run launch (boot False device))) \<and>
   set loads_done \<subseteq> set (trace (run launch (boot False device))) \<and>
   guarded sets_ready loads_done (trace (run launch (boot False device))) \<and>
   is_load LoadImages \<and>
   Rejected LoadImages Asset_loadAsync \<in> set (trace (run images_fail (boot False device))) \<and>
   \<not> isReady (app (run launch (run images_fail (boot False device)))) \<and>
   splash (world (run launch (run images_fail (boot False device)))) \<noteq> Hidden"
  using
    readiness_joins_loads [where cs = launch and r = False and ?w0.0 = device
      and cs' = launch and f = LoadImages and opn = Asset_loadAsync, OF refl refl]
    readiness_joins_loads [where cs = images_fail and r = False and ?w0.0 = device
      and cs' = launch and f = LoadImages and opn = Asset_loadAsync, OF refl refl]
  by (simp add: run_launch_device run_images_fail_device run_launch_after_failure
      loads_done_def)

text \<open>
  C4. In every launch, once the component is ready, it renders the navigator, the vault
  check has resolved, and the initial route is \<open>Authentication\<close> if the check
  resolved with a true value and \<open>Welcome\<close> otherwise; the route is the same whatever
  settings were loaded.
\<close>

theorem initial_route_by_vault:
  assumes "c = run cs (boot r w0)" and "isReady (app c)"
  shows "App (app c) =
           Some \<lparr>provided = initialSettings (app c), navigation = Stack_Navigator (app c)\<rparr> \<and>
         (\<exists>v. Resolved CheckVault DoesVaultExist v \<in> set (trace c)) \<and>
         (\<forall>v s g. Resolved CheckVault DoesVaultExist v \<in> set (trace c) \<longrightarrow>
            initialRouteName (Stack_Navigator ((app c)\<lparr>initialSettings := s\<rparr>) g) =
              (if Boolean v then Authentication else Welcome))"
proof -
  from assms(1) have inv: "consistent r w0 c" by (rule consistent_launch)
  then have obs: "observed r w0 (trace c)" by (rule consistent_observed)
  from ready_vault [OF ready_phase3 [OF inv assms(2)]]
  have cell: "vaultExists (app c) = JBool (vault_exists (after_reset r w0))"
    and seen: "Resolved CheckVault DoesVaultExist (JBool (vault_exists (after_reset r w0)))
      \<in> set (trace c)"
    by simp_all
  have "initialRouteName (Stack_Navigator ((app c)\<lparr>initialSettings := s\<rparr>) g) =
      (if Boolean v then Authentication else Welcome)"
    if "Resolved CheckVault DoesVaultExist v \<in> set (trace c)" for v s g
  proof -
    from obs that have "v = JBool (vault_exists (after_reset r w0))"
      by (simp add: observed_def)
    with cell show ?thesis by (simp add: Stack_Navigator_def)
  qed
  moreover from seen
  have "\<exists>v. Resolved CheckVault DoesVaultExist v \<in> set (trace c)" ..
  moreover from assms(2) have "App (app c) =
      Some \<lparr>provided = initialSettings (app c), navigation = Stack_Navigator (app c)\<rparr>"
    by (simp add: App_def)
  ultimately show ?thesis by blast
qed

theorem initial_route_by_vault_witness:
  "isReady (app (run launch (boot False device))) \<and>
   Resolved CheckVault DoesVaultExist (JBool True)
     \<in> set (trace (run launch (boot False device))) \<and>
   initialRouteName
     (Stack_Navigator
       ((app (run launch (boot False device)))\<lparr>initialSettings := None\<rparr>)
       \<lparr>vault = JNull\<rparr>) = Authentication \<and>
   isReady (app (run reset_launch (boot True device))) \<and>
   Resolved CheckVault DoesVaultExist (JBool False)
     \<in> set (trace (run reset_launch (boot True device))) \<and>
   initialRouteName
     (Stack_Navigator
       ((app (run reset_launch (boot True device)))\<lparr>initialSettings := None\<rparr>)
       \<lparr>vault = JNull\<rparr>) = Welcome"
proof -
  have 1: "isReady (app (run launch (boot False device)))"
    by (simp add: run_launch_device)
  have 2: "isReady (app (run reset_launch (boot True device)))"
    by (simp add: run_reset_launch_device)
  from initial_route_by_vault [OF refl 1] initial_route_by_vault [OF refl 2] 1 2
  show ?thesis
    by (simp add: run_launch_device run_reset_launch_device)
qed

text \<open>
  C5, as stated: at every instant exactly one of the two sets of screens is mounted.
  Before the component is ready it returns \<^verbatim>\<open>null\<close>, and no screen is mounted.
\<close>

theorem nothing_mounted_at_boot:
  "\<not> isReady (app (boot False device)) \<and>
   mounted (app (boot False device)) \<lparr>vault = JNull\<rparr> = [] \<and>
   mounted (app (boot False device)) \<lparr>vault = JObject\<rparr> = []"
  by (simp add: mounted_def App_def boot_def initialize_def app0_def)

text \<open>
  C5, amended: whenever the component is ready, exactly one of the two sets of screens is
  mounted, chosen by the \<open>vault\<close> field of the global state: \<open>Home\<close>, \<open>Sorting\<close>,
  \<open>BarcodeScanner\<close> and \<open>Settings\<close> when it is truthy, \<open>Welcome\<close>,
  \<open>AuthenticationSetup\<close> and \<open>Authentication\<close> otherwise; the two sets share no screen.
\<close>

theorem one_subgraph_when_ready:
  assumes "isReady a"
  shows "mounted a g =
           (if Boolean (vault g) then [Home, Sorting, BarcodeScanner, Settings]
            else [Welcome, AuthenticationSetup, Authentication]) \<and>
         set [Home, Sorting, BarcodeScanner, Settings] \<inter>
           set [Welcome, AuthenticationSetup, Authentication] = {}"
  using assms by (simp add: mounted_def App_def Stack_Navigator_def)

theorem one_subgraph_when_ready_witness:
  "isReady (app (run launch (boot False device))) \<and>
   mounted (app (run launch (boot False device))) \<lparr>vault = JNull\<rparr> =
     [Welcome, AuthenticationSetup, Authentication] \<and>
   mounted (app (run launch (boot False device))) \<lparr>vault = JObject\<rparr> =
     [Home, Sorting, BarcodeScanner, Settings]"
proof -
  have 1: "isReady (app (run launch (boot False device)))"
    by (simp add: run_launch_device)
  from one_subgraph_when_ready [OF 1, of "\<lparr>vault = JNull\<rparr>"]
    one_subgraph_when_ready [OF 1, of "\<lparr>vault = JObject\<rparr>"] 1
  show ?thesis by simp
qed

text \<open>
  C6, as stated: with biometrics enrolled and a password stored, the emitted
  \<open>biometricUnlock\<close> is true. \<^verbatim>\<open>Boolean\<close> of the empty string is false: a stored empty
  password is left in the store and gives \<open>biometricUnlock\<close> false.
\<close>

theorem blank_password_not_unlocking:
  "enrolled blank_password \<and> password blank_password = Some '''' \<and>
   password (world (run launch (boot False blank_password))) = Some '''' \<and>
   initialSettings (app (run launch (boot False blank_password))) =
     Some \<lparr>biometricUnlock = False, concealTokens = True\<rparr>"
proof -
  have "enrolled blank_password \<and> password blank_password = Some ''''"
    by (simp add: blank_password_def device_def)
  then show ?thesis by (simp add: run_launch_blank_password)
qed

text \<open>
  C6, amended: in every launch with biometrics enrolled and a password in the secure store
  when the loads start, \<open>loadSettings\<close> never calls the removal, the password stays in the
  store unchanged, the read of the password resolves with it, and the emitted
  \<open>biometricUnlock\<close> is true if and only if the password is not the empty string.
\<close>

theorem enrolled_password_kept:
  assumes "c = run cs (boot r w0)" and "enrolled w0"
    and "password (after_reset r w0) = Some p"
  shows "Called LoadSettings RemovePassword \<notin> set (trace c) \<and>
         password (world c) = Some p \<and>
         (\<forall>v. Resolved LoadSettings GetPassword v \<in> set (trace c) \<longrightarrow> v = JStr p) \<and>
         (\<forall>s. initialSettings (app c) = Some s \<longrightarrow> biometricUnlock s = (p \<noteq> []))"
proof -
  from assms(1) have inv: "consistent r w0 c" by (rule consistent_launch)
  then have obs: "observed r w0 (trace c)" by (rule consistent_observed)
  from obs assms(2)
  have "Called LoadSettings RemovePassword \<notin> set (trace c)"
    by (simp add: observed_def)
  moreover from consistent_password [OF inv assms(2,3)]
  have "password (world c) = Some p" .
  moreover have "v = JStr p" if "Resolved LoadSettings GetPassword v \<in> set (trace c)" for v
    using obs that assms(2,3) by (simp add: observed_def kept_def)
  moreover have "biometricUnlock s = (p \<noteq> [])" if "initialSettings (app c) = Some s" for s
    using consistent_settings [OF inv that] assms(2,3)
    by (simp add: snapshot_def unlocks_def kept_def)
  ultimately show ?thesis by blast
qed

theorem enrolled_password_kept_witness:
  "enrolled device \<and> password (after_reset False device) = Some ''secret'' \<and>
   Called LoadSettings RemovePassword \<notin> set (trace (run launch (boot False device))) \<and>
   password (world (run launch (boot False device))) = Some ''secret'' \<and>
   Resolved LoadSettings GetPassword (JStr ''secret'')
     \<in> set (trace (run launch (boot False device))) \<and>
   initialSettings (app (run launch (boot False device))) =
     Some \<lparr>biometricUnlock = True, concealTokens = True\<rparr>"
proof -
  have 1: "enrolled device" by (simp add: device_def)
  have 2: "password (after_reset False device) = Some ''secret''"
    by (simp add: after_reset_def device_def)
  from enrolled_password_kept [OF refl 1 2, of launch] 1 2
  show ?thesis by (simp add: run_launch_device)
qed

text \<open>
  C7. With the reset directive, every event of the four loads, their first calls
  included, happens after the three deletions of the reset have resolved. Without it,
  the reset makes no call at all, and no event of a launch belongs to it.
\<close>

theorem reset_precedes_loads:
  assumes "c = run cs (boot r w0)"
  shows "(r \<longrightarrow> guarded (\<lambda>e. is_load (who e)) reset_done (trace c)) \<and>
         (\<not> r \<longrightarrow>
            reset_calls (trace c) = [] \<and> (\<forall>e\<in>set (trace c). \<not> is_reset (who e)))"
proof -
  from consistent_order [OF consistent_launch [OF assms]]
  have order: "r \<longrightarrow> guarded (\<lambda>e. is_load (who e)) reset_done (trace c)"
    and none: "\<not> r \<longrightarrow> (\<forall>e\<in>set (trace c). \<not> is_reset (who e))"
    by simp_all
  from none have "\<not> r \<longrightarrow> reset_calls (trace c) = []"
    by (simp add: reset_calls_def filter_empty_conv)
  with order none show ?thesis by blast
qed

theorem reset_precedes_loads_witness:
  "guarded (\<lambda>e. is_load (who e)) reset_done (trace (run reset_launch (boot True device))) \<and>
   set reset_done \<subseteq> set (trace (run reset_launch (boot True device))) \<and>
   Called CheckVault DoesVaultExist \<in> set (trace (run reset_launch (boot True device))) \<and>
   reset_calls (trace (run launch (boot False device))) = [] \<and>
   list_all (\<lambda>e. \<not> is_reset (who e)) (trace (run launch (boot False device)))"
  using reset_precedes_loads [where cs = reset_launch and r = True and ?w0.0 = device,
      OF refl]
    reset_precedes_loads [where cs = launch and r = False and ?w0.0 = device, OF refl]
  by (simp add: run_reset_launch_device run_launch_device reset_done_def)

text \<open>
  C8. The readiness is monotonic: it is false at the launch, once true it stays true
  in every later configuration, and in a whole launch at most one event sets it, to true.
\<close>

theorem readiness_monotonic:
  assumes "c = run cs (boot r w0)" and "c' = run cs' c"
  shows "\<not> isReady (app (boot r w0)) \<and>
         (isReady (app c) \<longrightarrow> isReady (app c')) \<and>
         length (filter sets_ready (trace c)) \<le> 1 \<and>
         (\<forall>e\<in>set (trace c). sets_ready e \<longrightarrow> e = Acted Initialize (SetReady True))"
proof -
  from assms(1) have inv: "consistent r w0 c" by (rule consistent_launch)
  have "\<not> isReady (app (boot r w0))"
    by (simp add: boot_def initialize_def app0_def)
  moreover have "isReady (app c')" if "isReady (app c)"
  proof -
    from inv that have "phase3 r w0 c" by (rule ready_phase3)
    then have "phase3 r w0 c'" unfolding assms(2) by (rule phase3_run)
    then show ?thesis by (simp add: phase3_def)
  qed
  moreover have events: "filter sets_ready (trace c) = [] \<or>
      filter sets_ready (trace c) = [Acted Initialize (SetReady True)]"
  proof (cases "isReady (app c)")
    case True
    with inv have "phase3 r w0 c" by (rule ready_phase3)
    then show ?thesis by (simp add: ready_events)
  next
    case False
    with inv show ?thesis by (simp add: unready_events)
  qed
  moreover have "e = Acted Initialize (SetReady True)"
    if "e \<in> set (trace c)" and "sets_ready e" for e
  proof -
    from that have m: "e \<in> set (filter sets_ready (trace c))" by simp
    from events show ?thesis
    proof
      assume none: "filter sets_ready (trace c) = []"
      from m have "e \<in> set []" unfolding none .
      then show ?thesis by simp
    next
      assume one: "filter sets_ready (trace c) = [Acted Initialize (SetReady True)]"
      from m have "e \<in> set [Acted Initialize (SetReady True)]" unfolding one .
      then show ?thesis by simp
    qed
  qed
  moreover from events have "length (filter sets_ready (trace c)) \<le> 1" by auto
  ultimately show ?thesis by blast
qed

theorem readiness_monotonic_witness:
  "\<not> isReady (app (boot False device)) \<and>
   isReady (app (run launch (boot False device))) \<and>
   isReady (app (run images_fail (run launch (boot False device)))) \<and>
   filter sets_ready (trace (run launch (boot False device))) =
     [Acted Initialize (SetReady True)]"
proof -
  have 1: "isReady (app (run launch (boot False device)))"
    by (simp add: run_launch_device)
  from readiness_monotonic [where cs = launch and r = False and ?w0.0 = device
      and cs' = images_fail, OF refl refl] 1
  show ?thesis by (simp add: run_launch_device)
qed

text \<open>
  C9, as stated: the emitted \<open>concealTokens\<close> is true if and only if the key-value store
  holds a value for the key. \<^verbatim>\<open>Boolean\<close> of the empty string is false: a stored empty
  string gives \<open>concealTokens\<close> false.
\<close>

theorem blank_preference_not_concealing:
  "storage blank_preference ''concealTokens'' = Some '''' \<and>
   storage (world (run launch (boot False blank_preference))) ''concealTokens'' = Some '''' \<and>
   initialSettings (app (run launch (boot False blank_preference))) =
     Some \<lparr>biometricUnlock = True, concealTokens = False\<rparr>"
proof -
  have "storage blank_preference ''concealTokens'' = Some ''''"
    by (simp add: blank_preference_def device_def)
  then show ?thesis by (simp add: run_launch_blank_preference)
qed

text \<open>
  C9, amended: in every launch, the emitted \<open>concealTokens\<close> is \<^verbatim>\<open>Boolean\<close> of the value
  that the read of the preference resolved with: it is true if and only if the key-value
  store holds a value for the key that is not the empty string (no value gives false, the
  empty string gives false, every other string gives true).
\<close>

theorem conceal_tokens_truthy:
  assumes "c = run cs (boot r w0)" and "initialSettings (app c) = Some s"
  shows "(\<forall>v. Resolved LoadSettings GetConcealTokens v \<in> set (trace c) \<longrightarrow>
            concealTokens s = Boolean v) \<and>
         concealTokens s =
           (case storage (world c) ''concealTokens'' of None \<Rightarrow> False | Some x \<Rightarrow> x \<noteq> [])"
proof -
  from assms(1) have inv: "consistent r w0 c" by (rule consistent_launch)
  from consistent_settings [OF inv assms(2)]
  have s: "s = snapshot r w0" and st: "storage (world c) = storage (after_reset r w0)"
    by simp_all
  have "concealTokens s = Boolean v"
    if "Resolved LoadSettings GetConcealTokens v \<in> set (trace c)" for v
    using consistent_observed [OF inv] that s
    by (simp add: observed_def snapshot_def conceals_def)
  moreover from s st have "concealTokens s =
      (case storage (world c) ''concealTokens'' of None \<Rightarrow> False | Some x \<Rightarrow> x \<noteq> [])"
    by (simp add: snapshot_def conceals_def split: option.splits)
  ultimately show ?thesis by blast
qed

theorem conceal_tokens_truthy_witness:
  "initialSettings (app (run launch (boot False device))) =
     Some \<lparr>biometricUnlock = True, concealTokens = True\<rparr> \<and>
   storage (world (run launch (boot False device))) ''concealTokens'' = Some ''true'' \<and>
   Resolved LoadSettings GetConcealTokens (JStr ''true'')
     \<in> set (trace (run launch (boot False device))) \<and>
   initialSettings (app (run reset_launch (boot True device))) =
     Some \<lparr>biometricUnlock = False, concealTokens = False\<rparr> \<and>
   storage (world (run reset_launch (boot True device))) ''concealTokens'' = None"
proof -
  have 1: "initialSettings (app (run launch (boot False device))) =
     Some \<lparr>biometricUnlock = True, concealTokens = True\<rparr>"
    by (simp add: run_launch_device)
  have 2: "initialSettings (app (run reset_launch (boot True device))) =
     Some \<lparr>biometricUnlock = False, concealTokens = False\<rparr>"
    by (simp add: run_reset_launch_device)
  from conceal_tokens_truthy [OF refl 1] conceal_tokens_truthy [OF refl 2] 1 2
  show ?thesis by (simp add: run_launch_device run_reset_launch_device)
qed

text \<open>
  C10. As long as the component is not ready it returns \<^verbatim>\<open>null\<close>: no provider of the
  settings and no navigator. This holds while one of the four loads has not returned, and
  for ever once a call other than \<^verbatim>\<open>hideAsync\<close> has rejected.
\<close>

theorem nothing_rendered_before_ready:
  assumes "c = run cs (boot r w0)" and "c' = run cs' c"
  shows "(\<not> isReady (app c) \<longrightarrow> App (app c) = None) \<and>
         (\<not> set loads_done \<subseteq> set (trace c) \<longrightarrow> App (app c) = None) \<and>
         (Rejected f opn \<in> set (trace c) \<and> opn \<noteq> HideAsync \<longrightarrow> App (app c') = None)"
proof -
  from assms(1) have inv: "consistent r w0 c" by (rule consistent_launch)
  with assms(2) have inv': "consistent r w0 c'" by (simp add: consistent_run)
  have "App (app c) = None" if "\<not> set loads_done \<subseteq> set (trace c)"
  proof -
    from that ready_joined [OF ready_phase3 [OF inv]] have "\<not> isReady (app c)" by blast
    then show ?thesis by (simp add: App_def)
  qed
  moreover have "App (app c') = None"
    if "Rejected f opn \<in> set (trace c)" and "opn \<noteq> HideAsync"
  proof -
    from that(1) assms(2) run_trace [of c cs'] have "Rejected f opn \<in> set (trace c')"
      by auto
    from rejected_unready [OF inv' this that(2)] show ?thesis by (simp add: App_def)
  qed
  ultimately show ?thesis by (simp add: App_def)
qed

theorem nothing_rendered_before_ready_witness:
  "\<not> isReady (app (boot False device)) \<and> App (app (boot False device)) = None \<and>
   \<not> set loads_done \<subseteq> set (trace (run images_fail (boot False device))) \<and>
   App (app (run images_fail (boot False device))) = None \<and>
   Rejected LoadImages Asset_loadAsync \<in> set (trace (run images_fail (boot False device))) \<and>
   Asset_loadAsync \<noteq> HideAsync \<and>
   App (app (run launch (run images_fail (boot False device)))) = None"
proof -
  have 0: "boot False device = run [] (boot False device)" by simp
  have 1: "\<not> isReady (app (boot False device))"
    by (simp add: boot_def initialize_def app0_def)
  from nothing_rendered_before_ready [where cs = "[]" and r = False and ?w0.0 = device
      and cs' = "[]" and f = LoadImages and opn = Asset_loadAsync, OF 0 0]
    nothing_rendered_before_ready [where cs = images_fail and r = False and ?w0.0 = device
      and cs' = launch and f = LoadImages and opn = Asset_loadAsync, OF refl refl] 1
  show ?thesis
    by (simp add: run_images_fail_device run_launch_after_failure loads_done_def)
qed


end
